theory Spec2Isabelle
  imports Complex_Main "HOL-Library.Monad_Syntax"
begin

section \<open>Data model\<close>

text \<open>
  The classes \<open>Disk\<close>, \<open>Tower\<close> and \<open>Game\<close> of \<open>js/Game.js\<close>, reduced to the
  fields the puzzle logic reads or writes. Meshes, positions, themes and DOM handles are
  rendering state and are left out.

  Disk objects are shared by reference between \<open>Game.disks\<close>, \<open>Tower.disks\<close> and
  \<open>Game.draggingDisk\<close>. The model keeps the objects in one store, the list
  \<open>disks_g\<close> (the array \<open>Game.disks\<close>), and a reference to a disk is its position in
  that store, which is also the \<open>index\<close> the constructor is given. A reference to a
  tower (\<open>Disk.currentTower\<close>) is the tower's position in \<open>Game.towers\<close>, which is
  its \<open>id\<close>.
\<close>

type_synonym disk_ref = nat

record disk =
  size_d :: nat
  isSelected :: bool
  isDragging :: bool
  currentTower :: "nat option"

record tower =
  disks :: "disk_ref list"

datatype effect = UpdateUI | MoveSound | ErrorSound | VictorySound | TickSound

datatype error = TypeError

record game =
  numDisks :: nat
  moves :: nat
  timer :: nat
  timeLimit :: nat
  draggingDisk :: "disk_ref option"
  towers :: "tower list"
  disks_g :: "disk list"
  isGameOver :: bool
  gameMode :: string
  effects :: "effect list"

text \<open>The sizes of the disks of a tower, bottom (index 0) to top.\<close>

definition sizes :: "disk list \<Rightarrow> tower \<Rightarrow> nat list" where
  "sizes ds t = map (\<lambda>d. size_d (ds ! d)) (disks t)"

text \<open>\<open>disks[i].size > disks[i+1].size\<close> for every valid \<open>i\<close>.\<close>

fun strictlyDescending :: "nat list \<Rightarrow> bool" where
  "strictlyDescending [] = True"
| "strictlyDescending [x] = True"
| "strictlyDescending (x # y # zs) = (y < x \<and> strictlyDescending (y # zs))"

section \<open>Tower\<close>

text \<open>\<open>Tower.getTopDisk\<close>: \<open>null\<close> on an empty tower, else the last element.\<close>

definition getTopDisk :: "tower \<Rightarrow> disk_ref option" where
  "getTopDisk t = (if length (disks t) = 0 then None else Some (disks t ! (length (disks t) - 1)))"

text \<open>\<open>Tower.canAddDisk\<close>; \<open>ds\<close> is the store the disk references point into.\<close>

definition canAddDisk :: "disk list \<Rightarrow> tower \<Rightarrow> disk_ref \<Rightarrow> bool" where
  "canAddDisk ds t d =
     (if length (disks t) = 0 then True
      else (case getTopDisk t of
              None \<Rightarrow> False
            | Some topDisk \<Rightarrow> size_d (ds ! d) < size_d (ds ! topDisk)))"

text \<open>
  \<open>Tower.addDisk\<close>, called on tower \<open>t\<close> of the game: \<open>disk.setTower(this)\<close> and
  \<open>this.disks.push(disk)\<close>. The method has no check and no \<open>throw\<close>.
\<close>

definition addDisk :: "nat \<Rightarrow> disk_ref \<Rightarrow> game \<Rightarrow> game" where
  "addDisk t d g =
     g\<lparr>disks_g := (disks_g g)[d := (disks_g g ! d)\<lparr>currentTower := Some t\<rparr>],
       towers := (towers g)[t := (towers g ! t)\<lparr>disks := disks (towers g ! t) @ [d]\<rparr>]\<rparr>"

text \<open>
  \<open>Tower.removeDisk\<close>, called on tower \<open>t\<close>: \<open>null\<close> and no change on an empty
  tower, else \<open>this.disks.pop()\<close> and \<open>disk.setTower(null)\<close>.
\<close>

definition removeDisk :: "nat \<Rightarrow> game \<Rightarrow> disk_ref option \<times> game" where
  "removeDisk t g =
     (if length (disks (towers g ! t)) = 0 then (None, g)
      else
        (let d = last (disks (towers g ! t)) in
         (Some d,
          g\<lparr>towers := (towers g)[t := (towers g ! t)\<lparr>disks := butlast (disks (towers g ! t))\<rparr>],
            disks_g := (disks_g g)[d := (disks_g g ! d)\<lparr>currentTower := None\<rparr>]\<rparr>)))"

text \<open>
  \<open>Tower.isComplete\<close>: the length test, then the \<open>for\<close> loop over
  \<open>i = 0 .. totalDisks - 1\<close> that returns \<open>false\<close> at the first index whose disk
  does not have size \<open>totalDisks - i\<close>.
\<close>

function isComplete_loop :: "disk list \<Rightarrow> tower \<Rightarrow> nat \<Rightarrow> nat \<Rightarrow> bool" where
  "isComplete_loop ds t totalDisks i =
     (if i < totalDisks then
        (if size_d (ds ! (disks t ! i)) \<noteq> totalDisks - i then False
         else isComplete_loop ds t totalDisks (Suc i))
      else True)"
  by pat_completeness auto
termination
  by (relation "measure (\<lambda>(ds, t, totalDisks, i). totalDisks - i)") auto

declare isComplete_loop.simps [simp del]

definition isComplete :: "disk list \<Rightarrow> tower \<Rightarrow> nat \<Rightarrow> bool" where
  "isComplete ds t totalDisks =
     (if length (disks t) \<noteq> totalDisks then False else isComplete_loop ds t totalDisks 0)"

section \<open>Game: notifications, win check\<close>

text \<open>
  The calls that tell the player something are recorded in \<open>effects\<close>, in call order:
  \<open>updateUI\<close>, the three sound helpers and the tick sound of the countdown.
  Animation (\<open>Disk.updatePosition\<close>), the status line and score storage are outside
  the model. The interval timers are scheduled by the browser; the model has their
  callbacks, as steps that may happen at any moment.
\<close>

definition updateUI :: "game \<Rightarrow> game" where
  "updateUI g = g\<lparr>effects := effects g @ [UpdateUI]\<rparr>"

definition playMoveSound :: "game \<Rightarrow> game" where
  "playMoveSound g = g\<lparr>effects := effects g @ [MoveSound]\<rparr>"

definition playErrorSound :: "game \<Rightarrow> game" where
  "playErrorSound g = g\<lparr>effects := effects g @ [ErrorSound]\<rparr>"

definition playVictorySound :: "game \<Rightarrow> game" where
  "playVictorySound g = g\<lparr>effects := effects g @ [VictorySound]\<rparr>"

text \<open>\<open>Game.gameOver\<close>; the defeat branch only changes the status line.\<close>

definition gameOver :: "bool \<Rightarrow> game \<Rightarrow> game" where
  "gameOver victory g =
     (let g1 = g\<lparr>isGameOver := True\<rparr> in
      if victory then playVictorySound g1 else g1)"

text \<open>
  \<open>Game.checkWinCondition\<close>. \<open>this.towers[2]\<close> is \<open>undefined\<close> when the array is
  shorter, and the method call on it throws.
\<close>

definition checkWinCondition :: "game \<Rightarrow> error + game" where
  "checkWinCondition g =
     (if length (towers g) \<le> 2 then Inl TypeError
      else if isComplete (disks_g g) (towers g ! 2) (numDisks g) then Inr (gameOver True g)
      else Inr g)"

text \<open>
  The callback of \<open>Game.startTimer\<close>, and the callback of \<open>Game.startCountdown\<close>:
  one second less, the tick sound in the last ten seconds, and the game is lost when no
  time is left. (\<open>this.timer--\<close> below zero is set back to zero at once.)
\<close>

definition timerTick :: "game \<Rightarrow> game" where
  "timerTick g = updateUI (g\<lparr>timer := timer g + 1\<rparr>)"

definition countdownTick :: "game \<Rightarrow> game" where
  "countdownTick g =
     (let g1 = updateUI (g\<lparr>timer := timer g - 1\<rparr>);
          g2 = (if timer g1 \<le> 10 \<and> timer g1 > 0 then g1\<lparr>effects := effects g1 @ [TickSound]\<rparr>
                else g1)
      in if timer g2 \<le> 0 then gameOver False (g2\<lparr>timer := 0\<rparr>) else g2)"

section \<open>Game: creating the disks\<close>

text \<open>\<open>Game.clearDisks\<close>.\<close>

definition clearDisks :: "game \<Rightarrow> game" where
  "clearDisks g =
     g\<lparr>towers := map (\<lambda>t. t\<lparr>disks := []\<rparr>) (towers g),
       disks_g := [],
       draggingDisk := None\<rparr>"

text \<open>
  \<open>Game.setupGameMode\<close>. \<open>startCountdown\<close> of \<open>contrarreloj\<close> only schedules
  the countdown callback, and \<open>rearrangeTowers\<close> of \<open>desafio\<close> only moves the towers
  on screen (its two calls of \<open>Math.random\<close> decide screen positions and take no draw
  of the model).
\<close>

definition setupGameMode :: "game \<Rightarrow> game" where
  "setupGameMode g =
     (if gameMode g = ''contrarreloj'' then
        (let g1 = g\<lparr>timeLimit := numDisks g * 20\<rparr> in g1\<lparr>timer := timeLimit g1\<rparr>)
      else g)"

text \<open>
  \<open>Math.random()\<close> is an input of the model: a list of draws, consumed from the front,
  one element for each call. A draw \<open>r\<close> used in \<open>Math.floor(Math.random() * k)\<close>
  yields \<open>r mod k\<close>, so a draw below \<open>k\<close> is the index the source computes and every
  index \<open>0 .. k - 1\<close> can be drawn. A loop that needs a draw when the list is used up
  has not returned: its result is \<open>None\<close>.

  The loop of \<open>Game.createPuzzleConfiguration\<close>.
\<close>

fun puzzleLoop :: "nat list \<Rightarrow> disk_ref list \<Rightarrow> game \<Rightarrow> (error + game) option" where
  "puzzleLoop [] availableDisks g =
     (if length availableDisks > 0 then None else Some (Inr g))"
| "puzzleLoop (r # rnd1) availableDisks g =
     (if length availableDisks > 0 then
        (let towerIndex = r mod 3 in
         if towerIndex \<ge> length (towers g) then Some (Inl TypeError)
         else
           (let tower = towers g ! towerIndex;
                validDisks = filter (\<lambda>d. length (disks tower) = 0 \<or>
                    (case getTopDisk tower of
                       None \<Rightarrow> False
                     | Some topDisk \<Rightarrow> size_d (disks_g g ! d) < size_d (disks_g g ! topDisk)))
                  availableDisks
            in
            if length validDisks > 0 then
              (case rnd1 of
                 [] \<Rightarrow> None
               | r2 # rnd2 \<Rightarrow>
                   (let diskIndex = r2 mod length validDisks;
                        selectedDisk = validDisks ! diskIndex
                    in puzzleLoop rnd2 (filter (\<lambda>d. d \<noteq> selectedDisk) availableDisks)
                         (addDisk towerIndex selectedDisk g)))
            else puzzleLoop rnd1 availableDisks g))
      else Some (Inr g))"

text \<open>
  \<open>Game.createPuzzleConfiguration\<close>: a copy of \<open>this.disks\<close>, sorted by decreasing
  size (the sort is stable), then the loop.
\<close>

definition createPuzzleConfiguration :: "nat list \<Rightarrow> game \<Rightarrow> (error + game) option" where
  "createPuzzleConfiguration rnd g =
     puzzleLoop rnd
       (sort_key (\<lambda>d. - int (size_d (disks_g g ! d))) [0..<length (disks_g g)]) g"

text \<open>The object \<open>new Disk(size, ...)\<close> builds.\<close>

definition newDisk :: "nat \<Rightarrow> disk" where
  "newDisk s = \<lparr>size_d = s, isSelected = False, isDragging = False, currentTower = None\<rparr>"

text \<open>
  \<open>Game.createDisks\<close>: disk \<open>i\<close> gets size \<open>numDisks - i\<close> and is pushed on
  \<open>this.disks\<close>; then either the puzzle distribution, or every element of
  \<open>this.disks\<close> in order onto \<open>this.towers[0]\<close>.
\<close>

definition createDisks :: "nat list \<Rightarrow> game \<Rightarrow> (error + game) option" where
  "createDisks rnd g =
     (let g1 = g\<lparr>disks_g := disks_g g @ map (\<lambda>i. newDisk (numDisks g - i)) [0..<numDisks g]\<rparr> in
      if gameMode g1 = ''puzzle'' then createPuzzleConfiguration rnd g1
      else if length (disks_g g1) = 0 then Some (Inr g1)
      else if length (towers g1) = 0 then Some (Inl TypeError)
      else Some (Inr (fold (\<lambda>i. addDisk 0 i) [0..<length (disks_g g1)] g1)))"

text \<open>\<open>Game.resetGame\<close>.\<close>

definition resetGame :: "nat list \<Rightarrow> game \<Rightarrow> (error + game) option" where
  "resetGame rnd g =
     createDisks rnd
       (setupGameMode (clearDisks (updateUI (g\<lparr>moves := 0, timer := 0, isGameOver := False\<rparr>))))"

text \<open>\<open>Game.resetForSolution\<close>, which \<open>showSolution\<close> calls before it generates the steps.\<close>

definition resetForSolution :: "nat list \<Rightarrow> game \<Rightarrow> (error + game) option" where
  "resetForSolution rnd g =
     createDisks rnd
       (updateUI ((clearDisks g)\<lparr>moves := 0, timer := 0, isGameOver := False\<rparr>))"

text \<open>
  The state the constructor and \<open>createTowers\<close> leave: three empty towers, four disks
  selected, normal mode. \<open>init\<close> calls \<open>resetGame\<close> on it before any event is handled.
\<close>

definition constructed :: game where
  "constructed =
     \<lparr>numDisks = 4, moves = 0, timer = 0, timeLimit = 0, draggingDisk = None,
      towers = [\<lparr>disks = []\<rparr>, \<lparr>disks = []\<rparr>, \<lparr>disks = []\<rparr>],
      disks_g = [], isGameOver = False, gameMode = ''normal'', effects = []\<rparr>"

section \<open>Game: drag and drop\<close>

text \<open>
  \<open>Game.trySelectDisk\<close>. The ray cast is done by the rendering library; \<open>hit\<close> is its
  result, the tower whose top disk is the first object the ray meets (only top disks are
  offered to it), or \<open>None\<close> when it meets none. \<open>startDrag\<close> sets \<open>isDragging\<close>
  and, through \<open>select\<close>, \<open>isSelected\<close>.
\<close>

definition trySelectDisk :: "nat option \<Rightarrow> game \<Rightarrow> game" where
  "trySelectDisk hit g =
     (if draggingDisk g \<noteq> None then g
      else
        (case hit of
           None \<Rightarrow> g
         | Some k \<Rightarrow>
             if k \<ge> length (towers g) then g
             else
               (case getTopDisk (towers g ! k) of
                  None \<Rightarrow> g
                | Some d \<Rightarrow>
                    g\<lparr>draggingDisk := Some d,
                      disks_g := (disks_g g)[d := (disks_g g ! d)\<lparr>isDragging := True, isSelected := True\<rparr>]\<rparr>)))"

text \<open>
  \<open>Game.findClosestTower\<close>. \<open>distanceTo i\<close> is \<open>position.distanceTo(tower.position)\<close> for
  tower \<open>i\<close>, computed by the rendering library from the dragged mesh.
  \<open>minDistance\<close> starts at \<open>Infinity\<close>, written \<open>None\<close>.
\<close>

definition findClosestTower :: "(nat \<Rightarrow> real) \<Rightarrow> game \<Rightarrow> nat option" where
  "findClosestTower distanceTo g =
     (let (minDistance, closestTower) =
            fold (\<lambda>i (m, c).
                    if (case m of None \<Rightarrow> True | Some md \<Rightarrow> distanceTo i < md)
                    then (Some (distanceTo i), Some i) else (m, c))
              [0..<length (towers g)] (None, None)
      in if (case minDistance of None \<Rightarrow> False | Some md \<Rightarrow> md < 8) then closestTower
         else None)"

text \<open>The end of \<open>dropDisk\<close>: \<open>endDrag()\<close>, \<open>deselect()\<close>, \<open>this.draggingDisk = null\<close>.\<close>

definition finishDrag :: "disk_ref \<Rightarrow> game \<Rightarrow> game" where
  "finishDrag d g =
     g\<lparr>disks_g := (disks_g g)[d := (disks_g g ! d)\<lparr>isDragging := False, isSelected := False\<rparr>],
       draggingDisk := None\<rparr>"

text \<open>
  \<open>Game.dropDisk\<close>. Every branch reads \<open>this.draggingDisk.currentTower\<close> and
  dereferences it before it changes anything, so a \<open>null\<close> there throws with the state
  untouched. A tower reference of a JavaScript state always denotes one of the game's
  towers.
\<close>

definition dropDisk :: "(nat \<Rightarrow> real) \<Rightarrow> game \<Rightarrow> error + game" where
  "dropDisk distanceTo g =
     (case draggingDisk g of
        None \<Rightarrow> Inr g
      | Some d \<Rightarrow>
          (case findClosestTower distanceTo g of
             Some closestTower \<Rightarrow>
               if Some closestTower \<noteq> currentTower (disks_g g ! d) \<and>
                  canAddDisk (disks_g g) (towers g ! closestTower) d
               then
                 (case currentTower (disks_g g ! d) of
                    None \<Rightarrow> Inl TypeError
                  | Some sourceTower \<Rightarrow>
                      (let g1 = snd (removeDisk sourceTower g);
                           g2 = addDisk closestTower d g1;
                           g3 = playMoveSound (updateUI (g2\<lparr>moves := moves g2 + 1\<rparr>))
                       in case checkWinCondition g3 of
                            Inl e \<Rightarrow> Inl e
                          | Inr g4 \<Rightarrow> Inr (finishDrag d g4)))
               else
                 (case currentTower (disks_g g ! d) of
                    None \<Rightarrow> Inl TypeError
                  | Some sourceTower \<Rightarrow> Inr (finishDrag d (playErrorSound g)))
           | None \<Rightarrow>
               (case currentTower (disks_g g ! d) of
                  None \<Rightarrow> Inl TypeError
                | Some sourceTower \<Rightarrow> Inr (finishDrag d g))))"

section \<open>Game: automatic solution\<close>

record step =
  fromTower :: nat
  toTower :: nat

text \<open>
  \<open>Game.generateHanoiSolution\<close>. The recursion stops only at \<open>n === 1\<close>; from
  \<open>n \<le> 0\<close> it descends without end, which is the value \<open>None\<close>. The array
  \<open>steps\<close> is passed in and returned extended.
\<close>

partial_function (option) generateHanoiSolution ::
    "int \<Rightarrow> nat \<Rightarrow> nat \<Rightarrow> nat \<Rightarrow> step list \<Rightarrow> step list option" where
  "generateHanoiSolution n fromTower' toTower' auxTower steps =
     (if n = 1 then Some (steps @ [\<lparr>fromTower = fromTower', toTower = toTower'\<rparr>])
      else
        do {
          steps1 \<leftarrow> generateHanoiSolution (n - 1) fromTower' auxTower toTower' steps;
          generateHanoiSolution (n - 1) auxTower toTower' fromTower'
            (steps1 @ [\<lparr>fromTower = fromTower', toTower = toTower'\<rparr>])
        })"

text \<open>
  \<open>calculateMinMoves\<close> of \<open>js/utils.js\<close>, \<open>Math.pow(2, numDisks) - 1\<close>, for a
  number of disks; the floating-point result is the exact integer up to \<open>2^53\<close>.
\<close>

definition calculateMinMoves :: "nat \<Rightarrow> int" where
  "calculateMinMoves numDisks' = 2 ^ numDisks' - 1"

text \<open>
  \<open>Game.executeAutoMove\<close>. An index outside \<open>this.towers\<close> reads \<open>undefined\<close>,
  and the method call on it throws; \<open>toTower\<close> is only used when the source has a
  top disk.
\<close>

definition executeAutoMove :: "nat \<Rightarrow> nat \<Rightarrow> game \<Rightarrow> error + game" where
  "executeAutoMove fromTowerIndex toTowerIndex g =
     (if fromTowerIndex \<ge> length (towers g) then Inl TypeError
      else
        (case getTopDisk (towers g ! fromTowerIndex) of
           None \<Rightarrow> Inr g
         | Some d \<Rightarrow>
             if toTowerIndex \<ge> length (towers g) then Inl TypeError
             else if canAddDisk (disks_g g) (towers g ! toTowerIndex) d then
               (let g1 = snd (removeDisk fromTowerIndex g);
                    g2 = addDisk toTowerIndex d g1
                in Inr (playMoveSound (updateUI (g2\<lparr>moves := moves g2 + 1\<rparr>))))
             else Inr g))"

text \<open>
  The playback of \<open>showSolution\<close>: one \<open>executeAutoMove\<close> for each step, in order.
\<close>

fun playSteps :: "step list \<Rightarrow> game \<Rightarrow> error + game" where
  "playSteps [] g = Inr g"
| "playSteps (s # ss) g =
     (case executeAutoMove (fromTower s) (toTower s) g of
        Inl e \<Rightarrow> Inl e
      | Inr g' \<Rightarrow> playSteps ss g')"

section \<open>Sessions\<close>

text \<open>
  The states a session passes through: the first \<open>resetGame\<close> of \<open>init\<close>; a reset
  from the button, the difficulty selector or the mode selector; a pick and a release
  (the mouse and touch handlers return at once when the game is over); the reset of
  \<open>showSolution\<close> (which also returns at once when the game is over); a playback
  tick; and the callbacks of the two timers.
\<close>

inductive reachable :: "game \<Rightarrow> bool" where
  init: "resetGame rnd constructed = Some (Inr g) \<Longrightarrow> reachable g"
| reset: "reachable g \<Longrightarrow>
     resetGame rnd (g\<lparr>numDisks := n, gameMode := m\<rparr>) = Some (Inr g') \<Longrightarrow> reachable g'"
| pick: "reachable g \<Longrightarrow> \<not> isGameOver g \<Longrightarrow> reachable (trySelectDisk hit g)"
| release: "reachable g \<Longrightarrow> \<not> isGameOver g \<Longrightarrow> dropDisk distanceTo g = Inr g' \<Longrightarrow> reachable g'"
| solution: "reachable g \<Longrightarrow> \<not> isGameOver g \<Longrightarrow>
     resetForSolution rnd g = Some (Inr g') \<Longrightarrow> reachable g'"
| tick: "reachable g \<Longrightarrow> executeAutoMove f t g = Inr g' \<Longrightarrow> reachable g'"
| second: "reachable g \<Longrightarrow> reachable (timerTick g)"
| countdown: "reachable g \<Longrightarrow> reachable (countdownTick g)"

section \<open>Auxiliary definitions for the proofs\<close>

text \<open>
  The moves \<open>generateHanoiSolution\<close> appends, as a list: the lemma
  \<open>generateHanoiSolution_hanoi\<close> below proves that the source function returns
  \<open>steps @ hanoi n from to aux\<close> for every \<open>n \<ge> 1\<close>.
\<close>

fun hanoi :: "nat \<Rightarrow> nat \<Rightarrow> nat \<Rightarrow> nat \<Rightarrow> step list" where
  "hanoi 0 f t a = []"
| "hanoi (Suc n) f t a = hanoi n f a t @ [\<lparr>fromTower = f, toTower = t\<rparr>] @ hanoi n a t f"

text \<open>The sizes \<open>n, ..., 2, 1\<close>: a solved stack of \<open>n\<close> disks, bottom to top.\<close>

definition solved :: "nat \<Rightarrow> nat list" where
  "solved n = rev [1..<Suc n]"

text \<open>
  The size lists of all towers of a game, by tower index, and the effect of one
  \<open>executeAutoMove\<close> on them (lemma \<open>executeAutoMove_sizes\<close>).
\<close>

definition towerSizes :: "game \<Rightarrow> nat \<Rightarrow> nat list" where
  "towerSizes g i = sizes (disks_g g) (towers g ! i)"

definition moveSizes :: "nat \<Rightarrow> nat \<Rightarrow> (nat \<Rightarrow> nat list) \<Rightarrow> (nat \<Rightarrow> nat list)" where
  "moveSizes f t S =
     (if S f = [] then S
      else if S t = [] \<or> last (S f) < last (S t)
      then S(f := butlast (S f), t := S t @ [last (S f)])
      else S)"

text \<open>Every tower of the game is strictly descending in size from bottom to top.\<close>

definition towersDescending :: "game \<Rightarrow> bool" where
  "towersDescending g = list_all (\<lambda>tw. strictlyDescending (sizes (disks_g g) tw)) (towers g)"

section \<open>Example states\<close>

text \<open>The store of a five-disk game: disk \<open>i\<close> has size \<open>5 - i\<close>.\<close>

definition store5 :: "disk list" where
  "store5 = [newDisk 5, newDisk 4, newDisk 3, newDisk 2, newDisk 1]"

text \<open>The state after the \<open>resetGame\<close> of \<open>init\<close>: four disks on tower 0.\<close>

definition init4 :: game where
  "init4 =
     \<lparr>numDisks = 4, moves = 0, timer = 0, timeLimit = 0, draggingDisk = None,
      towers = [\<lparr>disks = [0, 1, 2, 3]\<rparr>, \<lparr>disks = []\<rparr>, \<lparr>disks = []\<rparr>],
      disks_g = [(newDisk 4)\<lparr>currentTower := Some 0\<rparr>,
                 (newDisk 3)\<lparr>currentTower := Some 0\<rparr>,
                 (newDisk 2)\<lparr>currentTower := Some 0\<rparr>,
                 (newDisk 1)\<lparr>currentTower := Some 0\<rparr>],
      isGameOver = False, gameMode = ''normal'', effects = [UpdateUI]\<rparr>"

text \<open>
  A three-disk game in normal mode right after a reset (the second reset of the session,
  after the one of \<open>init\<close>): disks 0, 1, 2 of sizes 3, 2, 1 on tower 0.
\<close>

definition start3 :: game where
  "start3 =
     \<lparr>numDisks = 3, moves = 0, timer = 0, timeLimit = 0, draggingDisk = None,
      towers = [\<lparr>disks = [0, 1, 2]\<rparr>, \<lparr>disks = []\<rparr>, \<lparr>disks = []\<rparr>],
      disks_g = [(newDisk 3)\<lparr>currentTower := Some 0\<rparr>,
                 (newDisk 2)\<lparr>currentTower := Some 0\<rparr>,
                 (newDisk 1)\<lparr>currentTower := Some 0\<rparr>],
      isGameOver = False, gameMode = ''normal'', effects = [UpdateUI, UpdateUI]\<rparr>"

text \<open>The same game after the smallest disk has gone from tower 0 to tower 2.\<close>

definition after1 :: game where
  "after1 =
     \<lparr>numDisks = 3, moves = 1, timer = 0, timeLimit = 0, draggingDisk = None,
      towers = [\<lparr>disks = [0, 1]\<rparr>, \<lparr>disks = []\<rparr>, \<lparr>disks = [2]\<rparr>],
      disks_g = [(newDisk 3)\<lparr>currentTower := Some 0\<rparr>,
                 (newDisk 2)\<lparr>currentTower := Some 0\<rparr>,
                 (newDisk 1)\<lparr>currentTower := Some 2\<rparr>],
      isGameOver = False, gameMode = ''normal'',
      effects = [UpdateUI, UpdateUI, UpdateUI, MoveSound]\<rparr>"

text \<open>
  That game after a pick on tower 0: its top disk, disk 1 of size 2, is being dragged.
\<close>

definition dragging1 :: game where
  "dragging1 =
     after1\<lparr>draggingDisk := Some 1,
       disks_g := [(newDisk 3)\<lparr>currentTower := Some 0\<rparr>,
                   (newDisk 2)\<lparr>isSelected := True, isDragging := True, currentTower := Some 0\<rparr>,
                   (newDisk 1)\<lparr>currentTower := Some 2\<rparr>]\<rparr>"

text \<open>
  Distances of a dragged disk from towers 0, 1, 2: one unit from tower 2, and out of
  reach of every tower.
\<close>

definition nearTower2 :: "nat \<Rightarrow> real" where
  "nearTower2 i = (if i = 0 then 21 else if i = 1 then 11 else 1)"

definition farAway :: "nat \<Rightarrow> real" where
  "farAway i = 50"

text \<open>
  A three-disk game in puzzle mode, as the reset leaves it when every draw is 0: the loop
  then puts the largest remaining disk on tower 0 each time.
\<close>

definition puzzle3 :: game where
  "puzzle3 =
     \<lparr>numDisks = 3, moves = 0, timer = 0, timeLimit = 0, draggingDisk = None,
      towers = [\<lparr>disks = [0, 1, 2]\<rparr>, \<lparr>disks = []\<rparr>, \<lparr>disks = []\<rparr>],
      disks_g = [(newDisk 3)\<lparr>currentTower := Some 0\<rparr>,
                 (newDisk 2)\<lparr>currentTower := Some 0\<rparr>,
                 (newDisk 1)\<lparr>currentTower := Some 0\<rparr>],
      isGameOver = False, gameMode = ''puzzle'',
      effects = [UpdateUI, UpdateUI, UpdateUI]\<rparr>"

text \<open>
  A four-disk game in puzzle mode inside the loop of \<open>createPuzzleConfiguration\<close>:
  the disks of sizes 1, 2, 3 lie on towers 0, 1, 2 and disk 0, of size 4, is still to be
  placed.
\<close>

definition stuck4 :: game where
  "stuck4 =
     \<lparr>numDisks = 4, moves = 0, timer = 0, timeLimit = 0, draggingDisk = None,
      towers = [\<lparr>disks = [3]\<rparr>, \<lparr>disks = [2]\<rparr>, \<lparr>disks = [1]\<rparr>],
      disks_g = [newDisk 4,
                 (newDisk 3)\<lparr>currentTower := Some 2\<rparr>,
                 (newDisk 2)\<lparr>currentTower := Some 1\<rparr>,
                 (newDisk 1)\<lparr>currentTower := Some 0\<rparr>],
      isGameOver = False, gameMode = ''puzzle'', effects = [UpdateUI, UpdateUI]\<rparr>"

text \<open>
  What \<open>showSolution\<close> starts from in the game \<open>puzzle3\<close> when the draws are
  1, 0, 1, 0, 1, 0: every disk on tower 1.
\<close>

definition scrambled3 :: game where
  "scrambled3 =
     \<lparr>numDisks = 3, moves = 0, timer = 0, timeLimit = 0, draggingDisk = None,
      towers = [\<lparr>disks = []\<rparr>, \<lparr>disks = [0, 1, 2]\<rparr>, \<lparr>disks = []\<rparr>],
      disks_g = [(newDisk 3)\<lparr>currentTower := Some 1\<rparr>,
                 (newDisk 2)\<lparr>currentTower := Some 1\<rparr>,
                 (newDisk 1)\<lparr>currentTower := Some 1\<rparr>],
      isGameOver = False, gameMode = ''puzzle'',
      effects = [UpdateUI, UpdateUI, UpdateUI, UpdateUI]\<rparr>"

section \<open>Basic facts\<close>

lemma getTopDisk_last: "getTopDisk t = (if disks t = [] then None else Some (last (disks t)))"
  by (simp add: getTopDisk_def last_conv_nth)

lemma canAddDisk_last:
  "canAddDisk ds t d = (disks t = [] \<or> size_d (ds ! d) < size_d (ds ! last (disks t)))"
  by (simp add: canAddDisk_def getTopDisk_last)

lemma strictlyDescending_nth:
  "strictlyDescending xs = (\<forall>i. Suc i < length xs \<longrightarrow> xs ! Suc i < xs ! i)"
proof (induction xs rule: strictlyDescending.induct)
  case (3 x y zs)
  show ?case
  proof
    assume a: "strictlyDescending (x # y # zs)"
    show "\<forall>i. Suc i < length (x # y # zs) \<longrightarrow> (x # y # zs) ! Suc i < (x # y # zs) ! i"
    proof (intro allI impI)
      fix i assume "Suc i < length (x # y # zs)"
      then show "(x # y # zs) ! Suc i < (x # y # zs) ! i"
        using a 3 by (cases i) auto
    qed
  next
    assume a: "\<forall>i. Suc i < length (x # y # zs) \<longrightarrow> (x # y # zs) ! Suc i < (x # y # zs) ! i"
    have "y < x" using a[rule_format, of 0] by simp
    moreover have "\<forall>i. Suc i < length (y # zs) \<longrightarrow> (y # zs) ! Suc i < (y # zs) ! i"
      using a[rule_format, of "Suc _"] by simp
    ultimately show "strictlyDescending (x # y # zs)" using 3 by simp
  qed
qed simp_all

lemma strictlyDescending_sorted_wrt: "strictlyDescending xs = sorted_wrt (\<lambda>a b. b < a) xs"
  by (induction xs rule: strictlyDescending.induct) (auto intro: less_trans)

lemma isComplete_loop_iff:
  "isComplete_loop ds t n i = (\<forall>j. i \<le> j \<and> j < n \<longrightarrow> size_d (ds ! (disks t ! j)) = n - j)"
proof (induction ds t n i rule: isComplete_loop.induct)
  case (1 ds t n i)
  show ?case
  proof (cases "i < n")
    case True
    note lt = this
    show ?thesis
    proof (cases "size_d (ds ! (disks t ! i)) = n - i")
      case True
      have "isComplete_loop ds t n i = isComplete_loop ds t n (Suc i)"
        using lt True by (subst isComplete_loop.simps) simp
      also have "\<dots> = (\<forall>j. Suc i \<le> j \<and> j < n \<longrightarrow> size_d (ds ! (disks t ! j)) = n - j)"
        using 1 lt True by simp
      also have "\<dots> = (\<forall>j. i \<le> j \<and> j < n \<longrightarrow> size_d (ds ! (disks t ! j)) = n - j)"
        using True by (metis Suc_leI le_neq_implies_less Suc_leD)
      finally show ?thesis .
    next
      case False
      then show ?thesis using lt by (subst isComplete_loop.simps) auto
    qed
  next
    case False
    then show ?thesis by (subst isComplete_loop.simps) auto
  qed
qed

lemma rev_upt_nth: "j < n \<Longrightarrow> rev [Suc 0..<Suc n] ! j = n - j"
proof -
  assume a: "j < n"
  have "rev [Suc 0..<Suc n] ! j = [Suc 0..<Suc n] ! (n - Suc j)"
    using a by (simp add: rev_nth del: upt_Suc)
  also have "\<dots> = Suc 0 + (n - Suc j)"
    using a by (intro nth_upt) simp
  finally show ?thesis using a by simp
qed

lemma isComplete_sizes: "isComplete ds t n = (sizes ds t = rev [1..<Suc n])"
proof -
  have len: "length (rev [1..<Suc n]) = n" by (simp del: upt_Suc)
  have "(sizes ds t = rev [1..<Suc n]) =
        (length (disks t) = n \<and> (\<forall>j<n. sizes ds t ! j = rev [1..<Suc n] ! j))"
    unfolding list_eq_iff_nth_eq len by (auto simp: sizes_def)
  also have "\<dots> = (length (disks t) = n \<and> (\<forall>j<n. size_d (ds ! (disks t ! j)) = n - j))"
    by (auto simp: sizes_def rev_upt_nth simp del: upt_Suc)
  finally show ?thesis
    by (auto simp: isComplete_def isComplete_loop_iff)
qed

lemma size_d_update_currentTower [simp]:
  "size_d (ds[d := (ds ! d)\<lparr>currentTower := c\<rparr>] ! e) = size_d (ds ! e)"
proof (cases "d < length ds")
  case True
  then show ?thesis by (cases "e = d") (simp_all add: nth_list_update)
next
  case False
  then show ?thesis by (simp add: list_update_beyond)
qed

lemma size_d_update_flags [simp]:
  "size_d (ds[d := (ds ! d)\<lparr>isDragging := a, isSelected := b\<rparr>] ! e) = size_d (ds ! e)"
proof (cases "d < length ds")
  case True
  then show ?thesis by (cases "e = d") (simp_all add: nth_list_update)
next
  case False
  then show ?thesis by (simp add: list_update_beyond)
qed

lemma currentTower_update_flags [simp]:
  "currentTower (ds[d := (ds ! d)\<lparr>isDragging := a, isSelected := b\<rparr>] ! e) = currentTower (ds ! e)"
proof (cases "d < length ds")
  case True
  then show ?thesis by (cases "e = d") (simp_all add: nth_list_update)
next
  case False
  then show ?thesis by (simp add: list_update_beyond)
qed

lemma canAddDisk_self:
  "getTopDisk t = Some d \<Longrightarrow> \<not> canAddDisk ds t d"
  by (auto simp: getTopDisk_last canAddDisk_last split: if_splits)

lemma size_d_list_update [simp]:
  "size_d x = size_d (ds ! d) \<Longrightarrow> size_d (ds[d := x] ! e) = size_d (ds ! e)"
proof (cases "d < length ds")
  case True
  assume "size_d x = size_d (ds ! d)"
  then show ?thesis using True by (cases "e = d") (simp_all add: nth_list_update)
next
  case False
  then show ?thesis by (simp add: list_update_beyond)
qed

lemma solved_0 [simp]: "solved 0 = []"
  by (simp add: solved_def)

lemma solved_Suc [simp]: "solved (Suc n) = Suc n # solved n"
  by (simp add: solved_def)

lemma length_solved [simp]: "length (solved n) = n"
  by (induction n) simp_all

lemma set_solved: "x \<in> set (solved n) \<Longrightarrow> x \<le> n"
  by (induction n) auto

lemma sizes_store_cong:
  "(\<And>e. size_d (ds' ! e) = size_d (ds ! e)) \<Longrightarrow> sizes ds' t = sizes ds t"
  by (simp add: sizes_def)

lemma executeAutoMove_sizes:
  assumes f: "f < length (towers g)" and t: "t < length (towers g)"
  shows "\<exists>g'. executeAutoMove f t g = Inr g' \<and> length (towers g') = length (towers g) \<and>
           towerSizes g' = moveSizes f t (towerSizes g)"
proof (cases "disks (towers g ! f) = []")
  case True
  then have "executeAutoMove f t g = Inr g"
    using f by (simp add: executeAutoMove_def getTopDisk_last)
  moreover have "moveSizes f t (towerSizes g) = towerSizes g"
    using True by (simp add: moveSizes_def towerSizes_def sizes_def)
  ultimately show ?thesis by simp
next
  case False
  note ne = this
  let ?d = "last (disks (towers g ! f))"
  have top: "getTopDisk (towers g ! f) = Some ?d" using ne by (simp add: getTopDisk_last)
  have lastf: "last (towerSizes g f) = size_d (disks_g g ! ?d)"
    using ne by (simp add: towerSizes_def sizes_def last_map)
  have nef: "towerSizes g f \<noteq> []" using ne by (simp add: towerSizes_def sizes_def)
  have can: "canAddDisk (disks_g g) (towers g ! t) ?d =
             (towerSizes g t = [] \<or> last (towerSizes g f) < last (towerSizes g t))"
  proof (cases "disks (towers g ! t) = []")
    case True
    then show ?thesis by (simp add: canAddDisk_last towerSizes_def sizes_def)
  next
    case False
    then show ?thesis
      using ne by (simp add: canAddDisk_last towerSizes_def sizes_def last_map)
  qed
  show ?thesis
  proof (cases "canAddDisk (disks_g g) (towers g ! t) ?d")
    case False
    then have "executeAutoMove f t g = Inr g"
      using f t top by (simp add: executeAutoMove_def)
    moreover have "moveSizes f t (towerSizes g) = towerSizes g"
      using False can nef by (simp add: moveSizes_def)
    ultimately show ?thesis by simp
  next
    case True
    then have ft: "f \<noteq> t" using top canAddDisk_self by blast
    let ?g' = "playMoveSound (updateUI
      ((addDisk t ?d (snd (removeDisk f g)))\<lparr>moves := moves (addDisk t ?d (snd (removeDisk f g))) + 1\<rparr>))"
    have ex: "executeAutoMove f t g = Inr ?g'"
      using True f t top by (simp add: executeAutoMove_def Let_def)
    have len: "length (towers ?g') = length (towers g)"
      using ne by (simp add: playMoveSound_def updateUI_def addDisk_def removeDisk_def Let_def)
    have "towerSizes ?g' i = moveSizes f t (towerSizes g) i" for i
    proof -
      have ms: "moveSizes f t (towerSizes g) =
            (towerSizes g)(f := butlast (towerSizes g f),
                           t := towerSizes g t @ [last (towerSizes g f)])"
        using True can nef by (simp add: moveSizes_def)
      have tw: "towers ?g' =
          (towers g)[f := (towers g ! f)\<lparr>disks := butlast (disks (towers g ! f))\<rparr>,
                     t := (towers g ! t)\<lparr>disks := disks (towers g ! t) @ [?d]\<rparr>]"
        using ne ft f t
        by (simp add: playMoveSound_def updateUI_def addDisk_def removeDisk_def Let_def)
      have st: "size_d (disks_g ?g' ! e) = size_d (disks_g g ! e)" for e
        using ne
        by (simp add: playMoveSound_def updateUI_def addDisk_def removeDisk_def Let_def)
      have sz: "towerSizes ?g' i = sizes (disks_g g) (towers ?g' ! i)"
        unfolding towerSizes_def by (rule sizes_store_cong) (rule st)
      show ?thesis
        unfolding sz tw ms using f t ft lastf
        by (auto simp: towerSizes_def sizes_def map_butlast nth_list_update)
    qed
    then have "towerSizes ?g' = moveSizes f t (towerSizes g)" by (rule ext)
    then show ?thesis using ex len by simp
  qed
qed

section \<open>The example states are states of a session\<close>

lemma resetGame_constructed: "resetGame [] constructed = Some (Inr init4)"
  by (simp add: resetGame_def constructed_def createDisks_def setupGameMode_def clearDisks_def
      updateUI_def addDisk_def newDisk_def upt_rec init4_def)

lemma reachable_init4: "reachable init4"
  by (rule reachable.init [OF resetGame_constructed])

lemma resetGame_start3:
  "resetGame [] (init4\<lparr>numDisks := 3, gameMode := ''normal''\<rparr>) = Some (Inr start3)"
  by (simp add: resetGame_def init4_def createDisks_def setupGameMode_def clearDisks_def
      updateUI_def addDisk_def newDisk_def upt_rec start3_def)

lemma reachable_start3: "reachable start3"
  by (rule reachable.reset [OF reachable_init4 resetGame_start3])

lemma executeAutoMove_start3: "executeAutoMove 0 2 start3 = Inr after1"
  by (simp add: executeAutoMove_def start3_def after1_def getTopDisk_def canAddDisk_def
      removeDisk_def addDisk_def updateUI_def playMoveSound_def newDisk_def)

lemma reachable_after1: "reachable after1"
  by (rule reachable.tick [OF reachable_start3 executeAutoMove_start3])

lemma trySelectDisk_after1: "trySelectDisk (Some 0) after1 = dragging1"
  by (simp add: trySelectDisk_def after1_def dragging1_def getTopDisk_def newDisk_def)

lemma reachable_dragging1: "reachable dragging1"
proof -
  have "\<not> isGameOver after1" by (simp add: after1_def)
  from reachable.pick [OF reachable_after1 this, of "Some 0"] show ?thesis
    by (simp add: trySelectDisk_after1)
qed

lemma findClosestTower_near: "findClosestTower nearTower2 dragging1 = Some 2"
  by (simp add: findClosestTower_def dragging1_def after1_def nearTower2_def upt_rec)

lemma findClosestTower_far: "findClosestTower farAway dragging1 = None"
  by (simp add: findClosestTower_def dragging1_def after1_def farAway_def upt_rec)

lemma resetGame_puzzle3:
  "resetGame [0, 0, 0, 0, 0, 0] (start3\<lparr>numDisks := 3, gameMode := ''puzzle''\<rparr>)
     = Some (Inr puzzle3)"
  by (simp add: resetGame_def start3_def createDisks_def createPuzzleConfiguration_def
      setupGameMode_def clearDisks_def updateUI_def addDisk_def newDisk_def upt_rec
      getTopDisk_def Let_def puzzle3_def)

lemma reachable_puzzle3: "reachable puzzle3"
  by (rule reachable.reset [OF reachable_start3 resetGame_puzzle3])

section \<open>The generated solution and its playback\<close>

lemma length_hanoi: "int (length (hanoi n f t a)) = 2 ^ n - 1"
  by (induction n arbitrary: f t a) simp_all

lemma hanoi_indices:
  "s \<in> set (hanoi n f t a) \<Longrightarrow> fromTower s \<in> {f, t, a} \<and> toTower s \<in> {f, t, a}"
  by (induction n arbitrary: f t a) auto

lemma playSteps_sizes:
  assumes "\<forall>s \<in> set ss. fromTower s < length (towers g) \<and> toTower s < length (towers g)"
  shows "\<exists>g'. playSteps ss g = Inr g' \<and> length (towers g') = length (towers g) \<and>
           towerSizes g' = fold (\<lambda>s. moveSizes (fromTower s) (toTower s)) ss (towerSizes g)"
  using assms
proof (induction ss arbitrary: g)
  case Nil
  then show ?case by simp
next
  case (Cons s ss)
  then have "fromTower s < length (towers g)" "toTower s < length (towers g)" by simp_all
  from executeAutoMove_sizes [OF this] obtain g1 where
    g1: "executeAutoMove (fromTower s) (toTower s) g = Inr g1"
        "length (towers g1) = length (towers g)"
        "towerSizes g1 = moveSizes (fromTower s) (toTower s) (towerSizes g)"
    by blast
  have "\<forall>s \<in> set ss. fromTower s < length (towers g1) \<and> toTower s < length (towers g1)"
    using Cons.prems g1(2) by simp
  from Cons.IH [OF this] obtain g' where
    "playSteps ss g1 = Inr g'" "length (towers g') = length (towers g1)"
    "towerSizes g' = fold (\<lambda>s. moveSizes (fromTower s) (toTower s)) ss (towerSizes g1)"
    by blast
  then show ?case using g1 by simp
qed

lemma moveSizes_accept:
  assumes "f \<noteq> t" and "S f = xs @ [x]" and "\<forall>y \<in> set (S t). x < y"
  shows "moveSizes f t S = S(f := xs, t := S t @ [x])"
proof -
  have "S t = [] \<or> x < last (S t)" using assms(3) by (cases "S t = []") simp_all
  then show ?thesis using assms(1,2) by (simp add: moveSizes_def)
qed

lemma hanoi_sizes:
  assumes "distinct [f, t, a]" and "S f = xs @ solved n"
    and "\<forall>x \<in> set xs. n < x" and "\<forall>x \<in> set (S t). n < x" and "\<forall>x \<in> set (S a). n < x"
  shows "fold (\<lambda>s. moveSizes (fromTower s) (toTower s)) (hanoi n f t a) S =
           S(f := xs, t := S t @ solved n)"
  using assms
proof (induction n arbitrary: f t a S xs)
  case 0
  then show ?case by (auto simp: fun_eq_iff)
next
  case (Suc n)
  let ?run = "\<lambda>ss. fold (\<lambda>s. moveSizes (fromTower s) (toTower s)) ss"
  from Suc.prems have d: "f \<noteq> t" "f \<noteq> a" "t \<noteq> a" by auto
  define S1 where "S1 = S(f := xs @ [Suc n], a := S a @ solved n)"
  have 1: "?run (hanoi n f a t) S = S1"
    unfolding S1_def
  proof (rule Suc.IH)
    show "distinct [f, a, t]" using d by auto
    show "S f = (xs @ [Suc n]) @ solved n" using Suc.prems(2) by simp
    show "\<forall>x \<in> set (xs @ [Suc n]). n < x" using Suc.prems(3) by auto
    show "\<forall>x \<in> set (S a). n < x" using Suc.prems(5) by auto
    show "\<forall>x \<in> set (S t). n < x" using Suc.prems(4) by auto
  qed
  define S2 where "S2 = S1(f := xs, t := S1 t @ [Suc n])"
  have 2: "moveSizes f t S1 = S2"
    unfolding S2_def
  proof (rule moveSizes_accept)
    show "f \<noteq> t" by (rule d)
    show "S1 f = xs @ [Suc n]" using d by (simp add: S1_def)
    show "\<forall>y \<in> set (S1 t). Suc n < y" using d Suc.prems(4) by (simp add: S1_def)
  qed
  have 3: "?run (hanoi n a t f) S2 = S2(a := S a, t := S2 t @ solved n)"
  proof (rule Suc.IH)
    show "distinct [a, t, f]" using d by auto
    show "S2 a = S a @ solved n" using d by (simp add: S2_def S1_def)
    show "\<forall>x \<in> set (S a). n < x" using Suc.prems(5) by auto
    show "\<forall>x \<in> set (S2 t). n < x" using d Suc.prems(4) by (auto simp: S2_def S1_def)
    show "\<forall>x \<in> set (S2 f). n < x" using d Suc.prems(3) by (auto simp: S2_def S1_def)
  qed
  have "?run (hanoi (Suc n) f t a) S = ?run (hanoi n a t f) (moveSizes f t (?run (hanoi n f a t) S))"
    by simp
  also have "\<dots> = S2(a := S a, t := S2 t @ solved n)"
    unfolding 1 2 3 ..
  also have "\<dots> = S(f := xs, t := S t @ solved (Suc n))"
    using d by (auto simp: S2_def S1_def fun_eq_iff)
  finally show ?case .
qed

lemma generateHanoiSolution_hanoi:
  "generateHanoiSolution (int (Suc n)) f t a steps = Some (steps @ hanoi (Suc n) f t a)"
proof (induction n arbitrary: f t a steps)
  case 0
  show ?case by (subst generateHanoiSolution.simps) simp
next
  case (Suc n)
  have ne: "int (Suc (Suc n)) \<noteq> 1" by simp
  have pred: "int (Suc (Suc n)) - 1 = int (Suc n)" by simp
  show ?case
    by (subst generateHanoiSolution.simps)
      (simp only: ne pred Suc.IH if_False bind.bind_lunit hanoi.simps append_assoc)
qed


section \<open>C2: the number of generated moves\<close>

text \<open>
  C2. For every \<open>n\<close> from 1 to 7, \<open>generateHanoiSolution(n, from, to, aux, steps)\<close>
  returns, and appends exactly \<open>2^n - 1\<close> moves to \<open>steps\<close>; this count equals
  \<open>calculateMinMoves(n)\<close>. The theorem holds for any tower indices and any initial
  \<open>steps\<close>, the empty list and distinct indices of the claim included.
\<close>

theorem generateHanoiSolution_count:
  assumes "1 \<le> n" and "n \<le> 7"
  shows "\<exists>added. generateHanoiSolution (int n) fromT toT auxT steps = Some (steps @ added) \<and>
           int (length added) = 2 ^ n - 1 \<and>
           int (length added) = calculateMinMoves n"
proof -
  obtain k where k: "n = Suc k" using assms(1) by (cases n) auto
  show ?thesis
    unfolding k calculateMinMoves_def
    using generateHanoiSolution_hanoi [of k fromT toT auxT steps]
      length_hanoi [of "Suc k" fromT toT auxT]
    by simp
qed

text \<open>The call of \<open>showSolution\<close> for three disks.\<close>

theorem generateHanoiSolution_count_witness:
  "\<exists>added. generateHanoiSolution 3 0 2 1 [] = Some ([] @ added) \<and>
      int (length added) = 2 ^ 3 - 1 \<and> int (length added) = calculateMinMoves 3"
proof -
  have "(1::nat) \<le> 3" "(3::nat) \<le> 7" by simp_all
  from generateHanoiSolution_count [OF this, of 0 2 1 "[]"] show ?thesis
    by simp
qed


section \<open>C3: playing the generated solution solves the puzzle\<close>

text \<open>
  C3. For every \<open>numDisks\<close> from 1 to 7, from a state whose tower 0 holds the sizes
  \<open>numDisks, ..., 2, 1\<close> bottom to top and whose towers 1 and 2 are empty,
  \<open>generateHanoiSolution(numDisks, 0, 2, 1, [])\<close> returns a list of steps, applying
  them in order with \<open>executeAutoMove\<close> raises no error, and in the final state
  \<open>isComplete\<close> holds of tower 2 with \<open>numDisks\<close>. For \<open>numDisks = 3\<close> the steps
  are 0\<rightarrow>2, 0\<rightarrow>1, 2\<rightarrow>1, 0\<rightarrow>2, 1\<rightarrow>0, 1\<rightarrow>2, 0\<rightarrow>2 and tower 2 ends with the
  sizes 3, 2, 1 bottom to top.
\<close>

theorem playback_solves:
  assumes n: "1 \<le> n" "n \<le> 7"
    and len: "2 < length (towers g)"
    and t0: "sizes (disks_g g) (towers g ! 0) = rev [1..<Suc n]"
    and t1: "disks (towers g ! 1) = []"
    and t2: "disks (towers g ! 2) = []"
  shows "\<exists>steps g'. generateHanoiSolution (int n) 0 2 1 [] = Some steps \<and>
           playSteps steps g = Inr g' \<and>
           isComplete (disks_g g') (towers g' ! 2) n \<and>
           (n = 3 \<longrightarrow>
              steps = [\<lparr>fromTower = 0, toTower = 2\<rparr>, \<lparr>fromTower = 0, toTower = 1\<rparr>,
                       \<lparr>fromTower = 2, toTower = 1\<rparr>, \<lparr>fromTower = 0, toTower = 2\<rparr>,
                       \<lparr>fromTower = 1, toTower = 0\<rparr>, \<lparr>fromTower = 1, toTower = 2\<rparr>,
                       \<lparr>fromTower = 0, toTower = 2\<rparr>] \<and>
              sizes (disks_g g') (towers g' ! 2) = [3, 2, 1])"
proof -
  obtain k where k: "n = Suc k" using n(1) by (cases n) auto
  let ?steps = "hanoi n 0 2 1"
  have gen: "generateHanoiSolution (int n) 0 2 1 [] = Some ?steps"
    unfolding k using generateHanoiSolution_hanoi [of k 0 2 1 "[]"] by simp
  have "\<forall>s \<in> set ?steps. fromTower s < length (towers g) \<and> toTower s < length (towers g)"
    using hanoi_indices [of _ n 0 2 1] len by fastforce
  from playSteps_sizes [OF this] obtain g' where
    g': "playSteps ?steps g = Inr g'"
        "towerSizes g' = fold (\<lambda>s. moveSizes (fromTower s) (toTower s)) ?steps (towerSizes g)"
    by blast
  have "fold (\<lambda>s. moveSizes (fromTower s) (toTower s)) ?steps (towerSizes g) =
          (towerSizes g)(0 := [], 2 := towerSizes g 2 @ solved n)"
  proof (rule hanoi_sizes)
    show "distinct [0::nat, 2, 1]" by simp
    show "towerSizes g 0 = [] @ solved n" using t0 by (simp add: towerSizes_def solved_def)
    show "\<forall>x \<in> set []. n < x" by simp
    show "\<forall>x \<in> set (towerSizes g 2). n < x" using t2 by (simp add: towerSizes_def sizes_def)
    show "\<forall>x \<in> set (towerSizes g 1). n < x" using t1 by (simp add: towerSizes_def sizes_def)
  qed
  then have "towerSizes g' 2 = solved n"
    using g'(2) t2 by (simp add: towerSizes_def sizes_def)
  then have fin: "sizes (disks_g g') (towers g' ! 2) = solved n"
    by (simp add: towerSizes_def)
  then have "isComplete (disks_g g') (towers g' ! 2) n"
    by (simp add: isComplete_sizes solved_def)
  moreover have "n = 3 \<longrightarrow>
      ?steps = [\<lparr>fromTower = 0, toTower = 2\<rparr>, \<lparr>fromTower = 0, toTower = 1\<rparr>,
                \<lparr>fromTower = 2, toTower = 1\<rparr>, \<lparr>fromTower = 0, toTower = 2\<rparr>,
                \<lparr>fromTower = 1, toTower = 0\<rparr>, \<lparr>fromTower = 1, toTower = 2\<rparr>,
                \<lparr>fromTower = 0, toTower = 2\<rparr>] \<and>
      sizes (disks_g g') (towers g' ! 2) = [3, 2, 1]"
    unfolding fin by (simp add: eval_nat_numeral)
  ultimately show ?thesis using gen g'(1) by blast
qed

text \<open>The three-disk game \<open>start3\<close>, a state of a session, is such a start.\<close>

theorem playback_solves_witness:
  "\<exists>steps g'. generateHanoiSolution 3 0 2 1 [] = Some steps \<and>
      playSteps steps start3 = Inr g' \<and>
      isComplete (disks_g g') (towers g' ! 2) 3 \<and>
      steps = [\<lparr>fromTower = 0, toTower = 2\<rparr>, \<lparr>fromTower = 0, toTower = 1\<rparr>,
               \<lparr>fromTower = 2, toTower = 1\<rparr>, \<lparr>fromTower = 0, toTower = 2\<rparr>,
               \<lparr>fromTower = 1, toTower = 0\<rparr>, \<lparr>fromTower = 1, toTower = 2\<rparr>,
               \<lparr>fromTower = 0, toTower = 2\<rparr>] \<and>
      sizes (disks_g g') (towers g' ! 2) = [3, 2, 1]"
proof -
  have "(1::nat) \<le> 3" "(3::nat) \<le> 7" "2 < length (towers start3)"
    "sizes (disks_g start3) (towers start3 ! 0) = rev [1..<Suc 3]"
    "disks (towers start3 ! 1) = []" "disks (towers start3 ! 2) = []"
    by (simp_all add: start3_def sizes_def newDisk_def upt_rec)
  from playback_solves [OF this] show ?thesis by simp
qed

section \<open>C4: the puzzle distribution can fail to terminate\<close>

lemma puzzleLoop_stuck:
  assumes av: "avail \<noteq> []"
    and len: "3 \<le> length (towers g)"
    and no: "\<forall>i<3. \<forall>d \<in> set avail. \<not> canAddDisk (disks_g g) (towers g ! i) d"
  shows "puzzleLoop rnd avail g = None"
proof (induction rnd)
  case Nil
  then show ?case using av by simp
next
  case (Cons r rnd1)
  have lt: "r mod 3 < 3" by simp
  have "filter (\<lambda>d. canAddDisk (disks_g g) (towers g ! (r mod 3)) d) avail = []"
    using no lt by (simp add: filter_empty_conv)
  moreover have "filter (\<lambda>d. length (disks (towers g ! (r mod 3))) = 0 \<or>
                    (case getTopDisk (towers g ! (r mod 3)) of
                       None \<Rightarrow> False
                     | Some topDisk \<Rightarrow> size_d (disks_g g ! d) < size_d (disks_g g ! topDisk)))
                  avail = filter (\<lambda>d. canAddDisk (disks_g g) (towers g ! (r mod 3)) d) avail"
    by (rule filter_cong) (auto simp: canAddDisk_def)
  ultimately show ?case
    using av len lt Cons.IH by (simp add: Let_def)
qed

lemma resetGame_reaches_stuck4:
  "resetGame (0 # 3 # 1 # 2 # 2 # 1 # rest) (init4\<lparr>numDisks := 4, gameMode := ''puzzle''\<rparr>)
     = puzzleLoop rest [0] stuck4"
  apply (simp add: resetGame_def init4_def createDisks_def createPuzzleConfiguration_def
      setupGameMode_def clearDisks_def updateUI_def addDisk_def newDisk_def upt_rec
      getTopDisk_def Let_def)
  apply (rule arg_cong [where f = "puzzleLoop rest [0]"])
  apply (simp add: stuck4_def newDisk_def)
  done

text \<open>
  C4 fails on the code. The player selects puzzle mode with four disks. The draws
  0, 3, 1, 2, 2, 1 put the disk of size 1 on tower 0, the disk of size 2 on tower 1 and
  the disk of size 3 on tower 2 (\<open>resetGame_reaches_stuck4\<close>). No tower accepts the
  disk of size 4 then, the loop places nothing more, and however the sequence of draws
  continues \<open>resetGame\<close> does not return.
\<close>

theorem puzzle_configuration_hangs:
  "resetGame (0 # 3 # 1 # 2 # 2 # 1 # rest) (init4\<lparr>numDisks := 4, gameMode := ''puzzle''\<rparr>)
     = None"
proof -
  have "puzzleLoop rest [0] stuck4 = None"
  proof (rule puzzleLoop_stuck)
    show "[0::nat] \<noteq> []" by simp
    show "3 \<le> length (towers stuck4)" by (simp add: stuck4_def)
    show "\<forall>i<3. \<forall>d \<in> set [0]. \<not> canAddDisk (disks_g stuck4) (towers stuck4 ! i) d"
      by (auto simp: stuck4_def canAddDisk_last newDisk_def numeral_3_eq_3 less_Suc_eq)
  qed
  then show ?thesis by (simp only: resetGame_reaches_stuck4)
qed

text \<open>One continuation of the draws.\<close>

theorem puzzle_configuration_hangs_witness:
  "resetGame [0, 3, 1, 2, 2, 1, 0, 1, 2, 0, 1, 2]
     (init4\<lparr>numDisks := 4, gameMode := ''puzzle''\<rparr>) = None"
  by (rule puzzle_configuration_hangs)

text \<open>
  The same dead end with five, six and seven disks: the three smallest disks are drawn
  first, one for each tower.
\<close>

lemma dead_end_five_disks:
  "resetGame (0 # 4 # 1 # 3 # 2 # 2 # rest) (init4\<lparr>numDisks := 5, gameMode := ''puzzle''\<rparr>)
     = None"
  apply (simp add: resetGame_def init4_def createDisks_def createPuzzleConfiguration_def
      setupGameMode_def clearDisks_def updateUI_def addDisk_def newDisk_def upt_rec
      getTopDisk_def Let_def)
  apply (rule puzzleLoop_stuck)
    apply (auto simp: canAddDisk_last less_Suc_eq numeral_3_eq_3)
  done

lemma dead_end_six_disks:
  "resetGame (0 # 5 # 1 # 4 # 2 # 3 # rest) (init4\<lparr>numDisks := 6, gameMode := ''puzzle''\<rparr>)
     = None"
  apply (simp add: resetGame_def init4_def createDisks_def createPuzzleConfiguration_def
      setupGameMode_def clearDisks_def updateUI_def addDisk_def newDisk_def upt_rec
      getTopDisk_def Let_def)
  apply (rule puzzleLoop_stuck)
    apply (auto simp: canAddDisk_last less_Suc_eq numeral_3_eq_3)
  done

lemma dead_end_seven_disks:
  "resetGame (0 # 6 # 1 # 5 # 2 # 4 # rest) (init4\<lparr>numDisks := 7, gameMode := ''puzzle''\<rparr>)
     = None"
  apply (simp add: resetGame_def init4_def createDisks_def createPuzzleConfiguration_def
      setupGameMode_def clearDisks_def updateUI_def addDisk_def newDisk_def upt_rec
      getTopDisk_def Let_def)
  apply (rule puzzleLoop_stuck)
    apply (auto simp: canAddDisk_last less_Suc_eq numeral_3_eq_3)
  done

section \<open>C5: how a rejected move is reported\<close>




section \<open>C7: \<open>addDisk\<close> does not check\<close>

text \<open>
  C7 (amended). \<open>Tower.addDisk\<close> has no defensive check and cannot fail: on any
  tower of the game and for any disk, whatever the sizes, it appends the disk to the top
  of the tower's disk sequence and records the tower as the current tower of the disk
  (a disk of the game); it changes no other tower and no disk's size.
\<close>

theorem addDisk_unchecked:
  assumes "t < length (towers g)"
  shows "disks (towers (addDisk t d g) ! t) = disks (towers g ! t) @ [d] \<and>
         length (towers (addDisk t d g)) = length (towers g) \<and>
         (\<forall>u. u \<noteq> t \<longrightarrow> towers (addDisk t d g) ! u = towers g ! u) \<and>
         (d < length (disks_g g) \<longrightarrow> currentTower (disks_g (addDisk t d g) ! d) = Some t) \<and>
         (\<forall>e. size_d (disks_g (addDisk t d g) ! e) = size_d (disks_g g ! e))"
  using assms
  by (auto simp: addDisk_def nth_list_update)

text \<open>Pushing disk 1 onto tower 2 of \<open>after1\<close>.\<close>

theorem addDisk_unchecked_witness:
  "disks (towers (addDisk 2 1 after1) ! 2) = [2, 1] \<and>
   currentTower (disks_g (addDisk 2 1 after1) ! 1) = Some 2"
proof -
  have "2 < length (towers after1)" by (simp add: after1_def)
  from addDisk_unchecked [OF this, of 1] show ?thesis
    by (simp add: after1_def)
qed

text \<open>
  C7 as stated fails: tower 2 of \<open>after1\<close> holds the disk of size 1, the pushed disk
  has size 2, \<open>canAddDisk\<close> rejects it, and \<open>addDisk\<close> appends it all the same,
  leaving the sizes 1, 2 from bottom to top.
\<close>

theorem addDisk_unchecked_counterexample:
  "\<not> canAddDisk (disks_g after1) (towers after1 ! 2) 1 \<and>
   sizes (disks_g after1) (towers after1 ! 2) = [1] \<and>
   size_d (disks_g after1 ! 1) = 2 \<and>
   sizes (disks_g (addDisk 2 1 after1)) (towers (addDisk 2 1 after1) ! 2) = [1, 2]"
  by (simp add: after1_def canAddDisk_last addDisk_def sizes_def newDisk_def)

section \<open>C8: what \<open>isComplete\<close> decides\<close>

lemma strictlyDescending_rev_upt: "strictlyDescending (rev [1..<Suc n])"
  unfolding strictlyDescending_sorted_wrt
  by (simp add: sorted_wrt_rev del: upt_Suc) 

lemma descending_in_range_unique:
  assumes d: "strictlyDescending xs" and r: "\<forall>s \<in> set xs. 1 \<le> s \<and> s \<le> length xs"
  shows "xs = rev [1..<Suc (length xs)]"
proof -
  have sw: "sorted_wrt (<) (rev xs)"
    using d by (simp add: strictlyDescending_sorted_wrt sorted_wrt_rev)
  then have sd: "sorted (rev xs)" "distinct (rev xs)"
    by (simp_all add: strict_sorted_iff)
  have sub: "set (rev xs) \<subseteq> {1..length xs}" using r by auto
  have "card (set (rev xs)) = length xs"
    using sd(2) distinct_card by fastforce
  then have "set (rev xs) = {1..length xs}"
    using sub by (intro card_subset_eq) simp_all
  then have "set (rev xs) = set [1..<Suc (length xs)]"
    by (simp add: atLeastLessThanSuc_atLeastAtMost del: upt_Suc)
  then have "rev xs = [1..<Suc (length xs)]"
    using sd by (intro sorted_distinct_set_unique) (simp_all del: upt_Suc)
  then show ?thesis by (metis rev_rev_ident)
qed

text \<open>
  C8 (amended). For a tower whose disk sizes all lie in \<open>1 .. expectedCount\<close>,
  \<open>isComplete\<close> is true iff the tower holds exactly \<open>expectedCount\<close> disks and
  their sizes strictly descend from bottom to top. Without the range condition the loop
  asks for more: by \<open>isComplete_sizes\<close> the sizes must be exactly
  \<open>expectedCount, ..., 2, 1\<close>.
\<close>

theorem isComplete_iff_descending_in_range:
  assumes "\<forall>s \<in> set (sizes ds t). 1 \<le> s \<and> s \<le> n"
  shows "isComplete ds t n = (length (disks t) = n \<and> strictlyDescending (sizes ds t))"
proof
  assume "isComplete ds t n"
  then have eq: "sizes ds t = rev [1..<Suc n]" by (simp add: isComplete_sizes)
  have "length (sizes ds t) = n" unfolding eq by (simp del: upt_Suc)
  then have "length (disks t) = n" by (simp add: sizes_def)
  moreover have "strictlyDescending (sizes ds t)"
    unfolding eq by (rule strictlyDescending_rev_upt)
  ultimately show "length (disks t) = n \<and> strictlyDescending (sizes ds t)" by simp
next
  assume a: "length (disks t) = n \<and> strictlyDescending (sizes ds t)"
  then have len: "length (sizes ds t) = n" by (simp add: sizes_def)
  have "sizes ds t = rev [1..<Suc (length (sizes ds t))]"
    using a assms len by (intro descending_in_range_unique) simp_all
  then show "isComplete ds t n" using len by (simp add: isComplete_sizes)
qed

text \<open>The three smallest disks of a five-disk store, stacked in order, with \<open>expectedCount = 3\<close>.\<close>

theorem isComplete_iff_descending_in_range_witness:
  "isComplete store5 \<lparr>disks = [2, 3, 4]\<rparr> 3 \<and>
   isComplete store5 \<lparr>disks = [2, 3, 4]\<rparr> 3 =
     (length (disks \<lparr>disks = [2, 3, 4]\<rparr>) = 3 \<and>
      strictlyDescending (sizes store5 \<lparr>disks = [2, 3, 4]\<rparr>))"
proof -
  have s: "sizes store5 \<lparr>disks = [2, 3, 4]\<rparr> = [3, 2, 1]"
    by (simp add: sizes_def store5_def newDisk_def)
  have h: "\<forall>s \<in> set (sizes store5 \<lparr>disks = [2, 3, 4]\<rparr>). 1 \<le> s \<and> s \<le> 3"
    unfolding s by simp
  show ?thesis
    using isComplete_iff_descending_in_range [OF h] unfolding s by simp
qed

text \<open>
  C8 as stated fails: a tower holding the disks of sizes 5, 3, 1 has three disks in
  strictly descending order, and \<open>isComplete\<close> with \<open>expectedCount = 3\<close> is false.
\<close>

theorem isComplete_descending_counterexample:
  "\<not> (isComplete store5 \<lparr>disks = [0, 2, 4]\<rparr> 3 =
       (length (disks \<lparr>disks = [0, 2, 4]\<rparr>) = 3 \<and>
        strictlyDescending (sizes store5 \<lparr>disks = [0, 2, 4]\<rparr>)))"
proof -
  have s: "sizes store5 \<lparr>disks = [0, 2, 4]\<rparr> = [5, 3, 1]"
    by (simp add: sizes_def store5_def newDisk_def)
  have "\<not> isComplete store5 \<lparr>disks = [0, 2, 4]\<rparr> 3"
    unfolding isComplete_sizes s by (simp add: upt_rec)
  moreover have "strictlyDescending (sizes store5 \<lparr>disks = [0, 2, 4]\<rparr>)"
    unfolding s by simp
  ultimately show ?thesis by simp
qed

section \<open>C9: a rejected release leaves the model as it was\<close>

text \<open>
  C9. A disk \<open>d\<close> is being dragged and its origin tower is \<open>origin\<close>. When the
  release resolves to no tower within the threshold, or to the origin tower, or to a tower
  that cannot accept \<open>d\<close>, \<open>dropDisk\<close> returns a state in which every tower's disk
  sequence and the move counter are as before, every disk has the current tower it had,
  the dragged disk is still a member of its origin tower if it was one, and no disk is
  being dragged.
\<close>

theorem dropDisk_rollback:
  assumes drag: "draggingDisk g = Some d"
    and origin: "currentTower (disks_g g ! d) = Some origin"
    and rej: "findClosestTower distanceTo g = None \<or>
              findClosestTower distanceTo g = Some origin \<or>
              (\<exists>c. findClosestTower distanceTo g = Some c \<and>
                   \<not> canAddDisk (disks_g g) (towers g ! c) d)"
  shows "\<exists>g'. dropDisk distanceTo g = Inr g' \<and>
           towers g' = towers g \<and>
           moves g' = moves g \<and>
           (\<forall>e. currentTower (disks_g g' ! e) = currentTower (disks_g g ! e)) \<and>
           (d \<in> set (disks (towers g ! origin)) \<longrightarrow> d \<in> set (disks (towers g' ! origin))) \<and>
           draggingDisk g' = None"
proof (cases "findClosestTower distanceTo g")
  case None
  then have "dropDisk distanceTo g = Inr (finishDrag d g)"
    using drag origin by (simp add: dropDisk_def)
  then show ?thesis by (simp add: finishDrag_def)
next
  case (Some c)
  then have "c = origin \<or> \<not> canAddDisk (disks_g g) (towers g ! c) d"
    using rej by auto
  then have "dropDisk distanceTo g = Inr (finishDrag d (playErrorSound g))"
    using drag origin Some by (auto simp: dropDisk_def)
  then show ?thesis by (simp add: finishDrag_def playErrorSound_def)
qed

text \<open>
  Disk 1 (size 2) of \<open>dragging1\<close>, picked from tower 0: released next to tower 2,
  whose top disk has size 1, and released far from every tower.
\<close>

theorem dropDisk_rollback_witness:
  "(\<exists>g'. dropDisk nearTower2 dragging1 = Inr g' \<and>
      towers g' = towers dragging1 \<and> moves g' = moves dragging1 \<and>
      1 \<in> set (disks (towers g' ! 0)) \<and> draggingDisk g' = None) \<and>
   (\<exists>g'. dropDisk farAway dragging1 = Inr g' \<and>
      towers g' = towers dragging1 \<and> moves g' = moves dragging1 \<and>
      1 \<in> set (disks (towers g' ! 0)) \<and> draggingDisk g' = None)"
proof -
  have d: "draggingDisk dragging1 = Some 1"
    and o: "currentTower (disks_g dragging1 ! 1) = Some 0"
    and m: "1 \<in> set (disks (towers dragging1 ! 0))"
    by (simp_all add: dragging1_def after1_def)
  have n: "findClosestTower nearTower2 dragging1 = None \<or>
           findClosestTower nearTower2 dragging1 = Some 0 \<or>
           (\<exists>c. findClosestTower nearTower2 dragging1 = Some c \<and>
                \<not> canAddDisk (disks_g dragging1) (towers dragging1 ! c) 1)"
    by (simp add: findClosestTower_near) (simp add: dragging1_def after1_def canAddDisk_last newDisk_def)
  have f: "findClosestTower farAway dragging1 = None \<or>
           findClosestTower farAway dragging1 = Some 0 \<or>
           (\<exists>c. findClosestTower farAway dragging1 = Some c \<and>
                \<not> canAddDisk (disks_g dragging1) (towers dragging1 ! c) 1)"
    by (simp add: findClosestTower_far)
  show ?thesis
    using dropDisk_rollback [OF d o n] dropDisk_rollback [OF d o f] m by blast
qed

section \<open>C10: \<open>executeAutoMove\<close> is all or nothing\<close>


text \<open>
  C10. For tower indices of the game: when the source tower is empty, or the target
  cannot accept the source's top disk, \<open>executeAutoMove\<close> returns the state it was
  given, unchanged in every field; when the move is accepted, the source loses exactly
  its top disk, the target gains it on top, no other tower changes, and the move counter
  grows by exactly 1.
\<close>

theorem executeAutoMove_atomic:
  assumes f: "f < length (towers g)" and t: "t < length (towers g)"
  shows "(getTopDisk (towers g ! f) = None \<or>
          (\<exists>d. getTopDisk (towers g ! f) = Some d \<and> \<not> canAddDisk (disks_g g) (towers g ! t) d)
          \<longrightarrow> executeAutoMove f t g = Inr g) \<and>
         (\<forall>d. getTopDisk (towers g ! f) = Some d \<and> canAddDisk (disks_g g) (towers g ! t) d
          \<longrightarrow> (\<exists>g'. executeAutoMove f t g = Inr g' \<and>
                 disks (towers g ! f) = disks (towers g' ! f) @ [d] \<and>
                 disks (towers g' ! t) = disks (towers g ! t) @ [d] \<and>
                 length (towers g') = length (towers g) \<and>
                 (\<forall>u. u \<noteq> f \<and> u \<noteq> t \<longrightarrow> towers g' ! u = towers g ! u) \<and>
                 moves g' = moves g + 1))"
proof (intro conjI impI allI)
  assume "getTopDisk (towers g ! f) = None \<or>
          (\<exists>d. getTopDisk (towers g ! f) = Some d \<and> \<not> canAddDisk (disks_g g) (towers g ! t) d)"
  then show "executeAutoMove f t g = Inr g"
    using f t by (auto simp: executeAutoMove_def)
next
  fix d
  assume a: "getTopDisk (towers g ! f) = Some d \<and> canAddDisk (disks_g g) (towers g ! t) d"
  then have ne: "f \<noteq> t" using canAddDisk_self by blast
  have nonempty: "disks (towers g ! f) \<noteq> []" and d: "d = last (disks (towers g ! f))"
    using a by (auto simp: getTopDisk_last split: if_splits)
  let ?g' = "playMoveSound (updateUI
      ((addDisk t d (snd (removeDisk f g)))\<lparr>moves := moves (addDisk t d (snd (removeDisk f g))) + 1\<rparr>))"
  have "executeAutoMove f t g = Inr ?g'"
    using a f t by (simp add: executeAutoMove_def Let_def)
  moreover have "disks (towers g ! f) = disks (towers ?g' ! f) @ [d]"
    using f t ne nonempty d
    by (simp add: playMoveSound_def updateUI_def addDisk_def removeDisk_def Let_def)
  moreover have "disks (towers ?g' ! t) = disks (towers g ! t) @ [d]"
    using f t ne nonempty
    by (simp add: playMoveSound_def updateUI_def addDisk_def removeDisk_def Let_def)
  moreover have "length (towers ?g') = length (towers g)"
    using nonempty
    by (simp add: playMoveSound_def updateUI_def addDisk_def removeDisk_def Let_def)
  moreover have "\<forall>u. u \<noteq> f \<and> u \<noteq> t \<longrightarrow> towers ?g' ! u = towers g ! u"
    using nonempty
    by (simp add: playMoveSound_def updateUI_def addDisk_def removeDisk_def Let_def)
  moreover have "moves ?g' = moves g + 1"
    using nonempty
    by (simp add: playMoveSound_def updateUI_def addDisk_def removeDisk_def Let_def)
  ultimately show "\<exists>g'. executeAutoMove f t g = Inr g' \<and>
                 disks (towers g ! f) = disks (towers g' ! f) @ [d] \<and>
                 disks (towers g' ! t) = disks (towers g ! t) @ [d] \<and>
                 length (towers g') = length (towers g) \<and>
                 (\<forall>u. u \<noteq> f \<and> u \<noteq> t \<longrightarrow> towers g' ! u = towers g ! u) \<and>
                 moves g' = moves g + 1"
    by blast
qed

text \<open>
  On \<open>start3\<close>: the move 1 \<rightarrow> 2 is rejected (tower 1 is empty) and the move
  0 \<rightarrow> 2 is accepted.
\<close>

theorem executeAutoMove_atomic_witness:
  "executeAutoMove 1 2 start3 = Inr start3 \<and>
   (\<exists>g'. executeAutoMove 0 2 start3 = Inr g' \<and>
      disks (towers start3 ! 0) = disks (towers g' ! 0) @ [2] \<and>
      disks (towers g' ! 2) = disks (towers start3 ! 2) @ [2] \<and>
      length (towers g') = length (towers start3) \<and>
      (\<forall>u. u \<noteq> 0 \<and> u \<noteq> 2 \<longrightarrow> towers g' ! u = towers start3 ! u) \<and>
      moves g' = moves start3 + 1)"
proof -
  have l: "1 < length (towers start3)" "0 < length (towers start3)" "2 < length (towers start3)"
    by (simp_all add: start3_def)
  have e: "getTopDisk (towers start3 ! 1) = None"
    by (simp add: start3_def getTopDisk_def)
  have a: "getTopDisk (towers start3 ! 0) = Some 2 \<and>
           canAddDisk (disks_g start3) (towers start3 ! 2) 2"
    by (simp add: start3_def getTopDisk_def canAddDisk_def)
  show ?thesis
    using executeAutoMove_atomic [OF l(1) l(3)] executeAutoMove_atomic [OF l(2) l(3)] e a
    by blast
qed

section \<open>The towers stay strictly descending\<close>

lemma strictlyDescending_snoc:
  "strictlyDescending (xs @ [x]) = (strictlyDescending xs \<and> (xs = [] \<or> x < last xs))"
  by (induction xs rule: strictlyDescending.induct) auto

lemma strictlyDescending_butlast: "strictlyDescending xs \<Longrightarrow> strictlyDescending (butlast xs)"
  by (induction xs rule: strictlyDescending.induct) (auto split: if_splits)

lemma towersDescending_cong:
  assumes "towers g' = towers g" and "\<And>e. size_d (disks_g g' ! e) = size_d (disks_g g ! e)"
  shows "towersDescending g' = towersDescending g"
  using assms by (simp add: towersDescending_def sizes_def)

lemma towersDescending_update:
  assumes "towersDescending g"
    and "towers g' = (towers g)[t := tw]"
    and "\<And>e. size_d (disks_g g' ! e) = size_d (disks_g g ! e)"
    and "strictlyDescending (sizes (disks_g g) tw)"
  shows "towersDescending g'"
proof -
  have "set (towers g') \<subseteq> insert tw (set (towers g))"
    unfolding assms(2) by (rule set_update_subset_insert)
  then show ?thesis
    using assms(1,3,4) by (auto simp: towersDescending_def list_all_iff sizes_def)
qed

lemma addDisk_descending:
  assumes inv: "towersDescending g" and can: "canAddDisk (disks_g g) (towers g ! t) d"
  shows "towersDescending (addDisk t d g)"
proof (cases "t < length (towers g)")
  case False
  then have "towers (addDisk t d g) = towers g" by (simp add: addDisk_def list_update_beyond)
  moreover have "size_d (disks_g (addDisk t d g) ! e) = size_d (disks_g g ! e)" for e
    by (simp add: addDisk_def)
  ultimately show ?thesis using inv towersDescending_cong by blast
next
  case True
  then have old: "strictlyDescending (sizes (disks_g g) (towers g ! t))"
    using inv by (simp add: towersDescending_def list_all_length)
  show ?thesis
  proof (rule towersDescending_update [OF inv])
    show "towers (addDisk t d g) = (towers g)[t := (towers g ! t)\<lparr>disks := disks (towers g ! t) @ [d]\<rparr>]"
      by (simp add: addDisk_def)
    show "size_d (disks_g (addDisk t d g) ! e) = size_d (disks_g g ! e)" for e
      by (simp add: addDisk_def)
    show "strictlyDescending (sizes (disks_g g) ((towers g ! t)\<lparr>disks := disks (towers g ! t) @ [d]\<rparr>))"
    proof (cases "disks (towers g ! t) = []")
      case True
      then show ?thesis by (simp add: sizes_def)
    next
      case False
      then show ?thesis
        using old can by (simp add: sizes_def strictlyDescending_snoc canAddDisk_last last_map)
    qed
  qed
qed

lemma removeDisk_descending:
  assumes inv: "towersDescending g"
  shows "towersDescending (snd (removeDisk t g))"
proof (cases "disks (towers g ! t) = []")
  case True
  then show ?thesis using inv by (simp add: removeDisk_def)
next
  case False
  note ne = this
  let ?g' = "snd (removeDisk t g)"
  have st: "size_d (disks_g ?g' ! e) = size_d (disks_g g ! e)" for e
    using ne by (simp add: removeDisk_def Let_def)
  have tw: "towers ?g' = (towers g)[t := (towers g ! t)\<lparr>disks := butlast (disks (towers g ! t))\<rparr>]"
    using ne by (simp add: removeDisk_def Let_def)
  show ?thesis
  proof (cases "t < length (towers g)")
    case False
    then have "towers ?g' = towers g" unfolding tw by (simp add: list_update_beyond)
    then show ?thesis using inv st towersDescending_cong by blast
  next
    case True
    then have old: "strictlyDescending (sizes (disks_g g) (towers g ! t))"
      using inv by (simp add: towersDescending_def list_all_length)
    show ?thesis
    proof (rule towersDescending_update [OF inv tw st])
      show "strictlyDescending (sizes (disks_g g)
              ((towers g ! t)\<lparr>disks := butlast (disks (towers g ! t))\<rparr>))"
        using strictlyDescending_butlast [OF old] by (simp add: sizes_def map_butlast)
    qed
  qed
qed

lemma removeDisk_other:
  "u \<noteq> t \<Longrightarrow> towers (snd (removeDisk t g)) ! u = towers g ! u"
  by (simp add: removeDisk_def Let_def)

lemma removeDisk_size [simp]:
  "size_d (disks_g (snd (removeDisk t g)) ! e) = size_d (disks_g g ! e)"
  by (simp add: removeDisk_def Let_def)

lemma canAddDisk_cong:
  assumes "\<And>e. size_d (ds' ! e) = size_d (ds ! e)"
  shows "canAddDisk ds' tw d = canAddDisk ds tw d"
  using assms by (simp add: canAddDisk_last)

lemma move_descending:
  assumes inv: "towersDescending g" and ne: "f \<noteq> t"
    and can: "canAddDisk (disks_g g) (towers g ! t) d"
  shows "towersDescending (addDisk t d (snd (removeDisk f g)))"
proof (rule addDisk_descending)
  show "towersDescending (snd (removeDisk f g))" using inv by (rule removeDisk_descending)
  have "towers (snd (removeDisk f g)) ! t = towers g ! t"
    using ne by (simp add: removeDisk_other)
  moreover have "canAddDisk (disks_g (snd (removeDisk f g))) (towers g ! t) d =
                 canAddDisk (disks_g g) (towers g ! t) d"
    by (rule canAddDisk_cong) simp
  ultimately show "canAddDisk (disks_g (snd (removeDisk f g))) (towers (snd (removeDisk f g)) ! t) d"
    using can by simp
qed

lemma executeAutoMove_descending:
  assumes inv: "towersDescending g" and ex: "executeAutoMove f t g = Inr g'"
  shows "towersDescending g'"
proof (cases "f < length (towers g) \<and> t < length (towers g) \<and>
    (\<exists>d. getTopDisk (towers g ! f) = Some d \<and> canAddDisk (disks_g g) (towers g ! t) d)")
  case False
  then have "g' = g" using ex by (auto simp: executeAutoMove_def split: option.splits if_splits)
  then show ?thesis using inv by simp
next
  case True
  then obtain d where d: "getTopDisk (towers g ! f) = Some d"
    "canAddDisk (disks_g g) (towers g ! t) d" by blast
  then have ne: "f \<noteq> t" using canAddDisk_self by blast
  let ?g2 = "addDisk t d (snd (removeDisk f g))"
  have "g' = playMoveSound (updateUI (?g2\<lparr>moves := moves ?g2 + 1\<rparr>))"
    using ex True d by (simp add: executeAutoMove_def Let_def)
  then have "towers g' = towers ?g2" "\<And>e. size_d (disks_g g' ! e) = size_d (disks_g ?g2 ! e)"
    by (simp_all add: playMoveSound_def updateUI_def)
  then have "towersDescending g' = towersDescending ?g2" by (rule towersDescending_cong)
  then show ?thesis using move_descending [OF inv ne d(2)] by simp
qed

lemma finishDrag_descending: "towersDescending (finishDrag d g) = towersDescending g"
  by (rule towersDescending_cong) (simp_all add: finishDrag_def)

lemma checkWinCondition_descending:
  "checkWinCondition g = Inr g' \<Longrightarrow> towersDescending g' = towersDescending g"
  by (rule towersDescending_cong)
    (auto simp: checkWinCondition_def gameOver_def playVictorySound_def split: if_splits)

lemma dropDisk_descending:
  assumes inv: "towersDescending g" and dr: "dropDisk distanceTo g = Inr g'"
  shows "towersDescending g'"
proof (cases "draggingDisk g")
  case None
  then show ?thesis using inv dr by (simp add: dropDisk_def)
next
  case (Some d)
  note drag = this
  show ?thesis
  proof (cases "currentTower (disks_g g ! d)")
    case None
    then show ?thesis using dr drag by (auto simp: dropDisk_def split: option.splits if_splits)
  next
    case (Some src)
    note src = this
    show ?thesis
    proof (cases "\<exists>c. findClosestTower distanceTo g = Some c \<and> c \<noteq> src \<and>
                      canAddDisk (disks_g g) (towers g ! c) d")
      case False
      then have "g' = finishDrag d g \<or> g' = finishDrag d (playErrorSound g)"
        using dr drag src by (auto simp: dropDisk_def split: option.splits if_splits)
      moreover have "towersDescending (playErrorSound g) = towersDescending g"
        by (rule towersDescending_cong) (simp_all add: playErrorSound_def)
      ultimately show ?thesis using inv finishDrag_descending by auto
    next
      case True
      then obtain c where c: "findClosestTower distanceTo g = Some c" "c \<noteq> src"
        "canAddDisk (disks_g g) (towers g ! c) d" by blast
      let ?g2 = "addDisk c d (snd (removeDisk src g))"
      let ?g3 = "playMoveSound (updateUI (?g2\<lparr>moves := moves ?g2 + 1\<rparr>))"
      have "dropDisk distanceTo g =
              (case checkWinCondition ?g3 of Inl e \<Rightarrow> Inl e | Inr g4 \<Rightarrow> Inr (finishDrag d g4))"
        using drag src c by (simp add: dropDisk_def Let_def)
      then obtain g4 where g4: "checkWinCondition ?g3 = Inr g4" "g' = finishDrag d g4"
        using dr by (auto split: sum.splits)
      have 2: "towersDescending ?g2"
        using inv c(2,3) by (intro move_descending) auto
      have "towersDescending ?g3 = towersDescending ?g2"
        by (rule towersDescending_cong) (simp_all add: playMoveSound_def updateUI_def)
      then have "towersDescending g4"
        using 2 checkWinCondition_descending [OF g4(1)] by simp
      then show ?thesis using g4(2) finishDrag_descending by simp
    qed
  qed
qed

lemma trySelectDisk_descending: "towersDescending (trySelectDisk hit g) = towersDescending g"
  by (rule towersDescending_cong)
    (auto simp: trySelectDisk_def split: option.splits)

lemma puzzleLoop_descending:
  "puzzleLoop rnd avail g = Some (Inr g') \<Longrightarrow> towersDescending g \<Longrightarrow> towersDescending g'"
proof (induction "length rnd" arbitrary: rnd avail g rule: less_induct)
  case less
  show ?case
  proof (cases rnd)
    case Nil
    then show ?thesis using less.prems by (simp split: if_splits)
  next
    case (Cons r rnd1)
    note rnd = this
    show ?thesis
    proof (cases "avail = []")
      case True
      then show ?thesis using less.prems rnd by simp
    next
      case False
      note av = this
      let ?ti = "r mod 3"
      have inr: "\<not> length (towers g) \<le> ?ti"
        using less.prems(1) rnd av by (auto simp: Let_def split: if_splits)
      let ?valid = "filter (\<lambda>d. canAddDisk (disks_g g) (towers g ! ?ti) d) avail"
      have valid: "filter (\<lambda>d. length (disks (towers g ! ?ti)) = 0 \<or>
                    (case getTopDisk (towers g ! ?ti) of
                       None \<Rightarrow> False
                     | Some topDisk \<Rightarrow> size_d (disks_g g ! d) < size_d (disks_g g ! topDisk)))
                  avail = ?valid"
        by (rule filter_cong) (auto simp: canAddDisk_def)
      show ?thesis
      proof (cases "?valid = []")
        case True
        then have "puzzleLoop rnd avail g = puzzleLoop rnd1 avail g"
          using rnd av inr valid by (simp add: Let_def)
        then show ?thesis using less.hyps [of rnd1 avail g] less.prems rnd by simp
      next
        case False
        note vne = this
        show ?thesis
        proof (cases rnd1)
          case Nil
          then have "puzzleLoop rnd avail g = None"
            using rnd av inr valid vne by (simp add: Let_def)
          then show ?thesis using less.prems by simp
        next
          case (Cons r2 rnd2)
          let ?sel = "?valid ! (r2 mod length ?valid)"
          have "?sel \<in> set ?valid" using vne by (intro nth_mem) simp
          then have can: "canAddDisk (disks_g g) (towers g ! ?ti) ?sel" by simp
          have "puzzleLoop rnd avail g =
                  puzzleLoop rnd2 (filter (\<lambda>d. d \<noteq> ?sel) avail) (addDisk ?ti ?sel g)"
            using rnd Cons av inr valid vne by (simp add: Let_def)
          then have "puzzleLoop rnd2 (filter (\<lambda>d. d \<noteq> ?sel) avail) (addDisk ?ti ?sel g) = Some (Inr g')"
            using less.prems(1) by simp
          moreover have "towersDescending (addDisk ?ti ?sel g)"
            using less.prems(2) can by (rule addDisk_descending)
          moreover have "length rnd2 < length rnd" using rnd Cons by simp
          ultimately show ?thesis using less.hyps by blast
        qed
      qed
    qed
  qed
qed

lemma fold_addDisk_towers:
  "towers (fold (\<lambda>i. addDisk 0 i) is g) =
     (towers g)[0 := (towers g ! 0)\<lparr>disks := disks (towers g ! 0) @ is\<rparr>]"
proof (induction "is" arbitrary: g)
  case Nil
  then show ?case by simp
next
  case (Cons i "is")
  show ?case
  proof (cases "towers g")
    case Nil
    then show ?thesis using Cons.IH [of "addDisk 0 i g"] by (simp add: addDisk_def)
  next
    case (Cons tw tws)
    then show ?thesis using Cons.IH [of "addDisk 0 i g"] by (simp add: addDisk_def)
  qed
qed

lemma fold_addDisk_size:
  "size_d (disks_g (fold (\<lambda>i. addDisk 0 i) is g) ! e) = size_d (disks_g g ! e)"
  by (induction "is" arbitrary: g) (simp_all add: addDisk_def)

lemma strictlyDescending_countdown: "strictlyDescending (map (\<lambda>i. n - i) [0..<n])"
  by (auto simp: strictlyDescending_nth)

lemma createDisks_descending:
  assumes empty: "disks_g g = []" "\<forall>tw \<in> set (towers g). disks tw = []"
    and cr: "createDisks rnd g = Some (Inr g')"
  shows "towersDescending g'"
proof -
  let ?n = "numDisks g"
  let ?g1 = "g\<lparr>disks_g := disks_g g @ map (\<lambda>i. newDisk (?n - i)) [0..<?n]\<rparr>"
  have inv1: "towersDescending ?g1"
    using empty(2) by (simp add: towersDescending_def list_all_iff sizes_def)
  show ?thesis
  proof (cases "gameMode g = ''puzzle''")
    case True
    then have "puzzleLoop rnd
       (sort_key (\<lambda>d. - int (size_d (disks_g ?g1 ! d))) [0..<length (disks_g ?g1)]) ?g1 = Some (Inr g')"
      using cr by (simp add: createDisks_def createPuzzleConfiguration_def Let_def)
    then show ?thesis using inv1 by (rule puzzleLoop_descending)
  next
    case False
    note np = this
    show ?thesis
    proof (cases "?n = 0")
      case True
      then have "g' = ?g1" using cr np empty(1) by (simp add: createDisks_def Let_def)
      then show ?thesis using inv1 by simp
    next
      case False
      let ?g2 = "fold (\<lambda>i. addDisk 0 i) [0..<?n] ?g1"
      have g': "g' = ?g2"
        using cr np empty(1) False by (simp add: createDisks_def Let_def split: if_splits)
      have st: "size_d (disks_g ?g2 ! e) = size_d (disks_g ?g1 ! e)" for e
        by (rule fold_addDisk_size)
      have tw: "towers ?g2 = (towers ?g1)[0 := (towers ?g1 ! 0)\<lparr>disks := disks (towers ?g1 ! 0) @ [0..<?n]\<rparr>]"
        by (rule fold_addDisk_towers)
      have "towersDescending ?g2"
      proof (rule towersDescending_update [OF inv1 tw st])
        have ne: "towers g \<noteq> []" using cr np empty(1) False
          by (auto simp: createDisks_def Let_def split: if_splits)
        then have "towers g ! 0 \<in> set (towers g)" by (simp add: nth_mem)
        then have "disks (towers g ! 0) = []" using empty(2) by blast
        then have "sizes (disks_g ?g1) ((towers ?g1 ! 0)\<lparr>disks := disks (towers ?g1 ! 0) @ [0..<?n]\<rparr>)
              = map (\<lambda>i. ?n - i) [0..<?n]"
          using empty(1) by (simp add: sizes_def newDisk_def)
        then show "strictlyDescending
            (sizes (disks_g ?g1) ((towers ?g1 ! 0)\<lparr>disks := disks (towers ?g1 ! 0) @ [0..<?n]\<rparr>))"
          using strictlyDescending_countdown by simp
      qed
      then show ?thesis using g' by simp
    qed
  qed
qed

lemma resetGame_descending:
  "resetGame rnd g = Some (Inr g') \<Longrightarrow> towersDescending g'"
  unfolding resetGame_def
  by (erule createDisks_descending [rotated 2])
    (auto simp: setupGameMode_def clearDisks_def updateUI_def Let_def)

lemma resetForSolution_descending:
  "resetForSolution rnd g = Some (Inr g') \<Longrightarrow> towersDescending g'"
  unfolding resetForSolution_def
  by (erule createDisks_descending [rotated 2])
    (auto simp: clearDisks_def updateUI_def)

lemma reachable_descending: "reachable g \<Longrightarrow> towersDescending g"
proof (induction rule: reachable.induct)
  case (init rnd g)
  then show ?case by (rule resetGame_descending)
next
  case (reset g rnd n m g')
  then show ?case using resetGame_descending by blast
next
  case (pick g hit)
  then show ?case by (simp add: trySelectDisk_descending)
next
  case (release g distanceTo g')
  then show ?case using dropDisk_descending by blast
next
  case (solution g rnd g')
  then show ?case using resetForSolution_descending by blast
next
  case (tick g f t g')
  then show ?case using executeAutoMove_descending by blast
next
  case (second g)
  have "towersDescending (timerTick g) = towersDescending g"
    by (rule towersDescending_cong) (simp_all add: timerTick_def updateUI_def)
  then show ?case using second.IH by simp
next
  case (countdown g)
  have "towersDescending (countdownTick g) = towersDescending g"
    by (rule towersDescending_cong)
      (simp_all add: countdownTick_def updateUI_def gameOver_def Let_def)
  then show ?case using countdown.IH by simp
qed

section \<open>C1: the invariant of the towers\<close>

text \<open>
  C1. In every state of a session (after the initial layout of any game mode, after a
  reset, after every release, whether accepted or not, after every playback move, and
  after the timer callbacks in between) every tower's disk sequence is strictly decreasing in size from bottom to top:
  \<open>disks[i].size > disks[i+1].size\<close> for every valid \<open>i\<close>.
\<close>

theorem towers_strictly_descending:
  assumes "reachable g" and "t < length (towers g)" and "Suc i < length (disks (towers g ! t))"
  shows "size_d (disks_g g ! (disks (towers g ! t) ! Suc i)) <
         size_d (disks_g g ! (disks (towers g ! t) ! i))"
proof -
  have "strictlyDescending (sizes (disks_g g) (towers g ! t))"
    using reachable_descending [OF assms(1)] assms(2)
    by (simp add: towersDescending_def list_all_length)
  then show ?thesis
    using assms(3) by (simp add: strictlyDescending_nth sizes_def)
qed

text \<open>
  The state \<open>dragging1\<close> is reached by two resets, a playback move and a pick; the two
  disks on its tower 0 are in order.
\<close>

theorem towers_strictly_descending_witness:
  "size_d (disks_g dragging1 ! (disks (towers dragging1 ! 0) ! Suc 0)) <
   size_d (disks_g dragging1 ! (disks (towers dragging1 ! 0) ! 0))"
proof -
  have "0 < length (towers dragging1)" "Suc 0 < length (disks (towers dragging1 ! 0))"
    by (simp_all add: dragging1_def after1_def)
  from towers_strictly_descending [OF reachable_dragging1 this] show ?thesis .
qed

section \<open>C6: the layout solution playback starts from\<close>

text \<open>
  In every mode but puzzle, \<open>resetForSolution\<close> does produce the canonical layout:
  the sizes \<open>numDisks, ..., 1\<close> on tower 0, towers 1 and 2 empty.
\<close>

lemma fold_addDisk_moves: "moves (fold (\<lambda>i. addDisk 0 i) is g) = moves g"
  by (induction "is" arbitrary: g) (simp_all add: addDisk_def)

lemma countdown_solved: "map (\<lambda>i. n - i) [0..<n] = solved n"
proof (rule nth_equalityI)
  show "length (map (\<lambda>i. n - i) [0..<n]) = length (solved n)" by simp
next
  fix i assume "i < length (map (\<lambda>i. n - i) [0..<n])"
  then have "i < n" by simp
  then show "map (\<lambda>i. n - i) [0..<n] ! i = solved n ! i"
    unfolding solved_def by (simp add: rev_upt_nth del: upt_Suc)
qed

lemma resetForSolution_canonical:
  assumes mode: "gameMode g \<noteq> ''puzzle''" and len: "length (towers g) = 3"
    and n: "0 < numDisks g"
  shows "\<exists>g'. resetForSolution rnd g = Some (Inr g') \<and>
           sizes (disks_g g') (towers g' ! 0) = rev [1..<Suc (numDisks g)] \<and>
           disks (towers g' ! 1) = [] \<and> disks (towers g' ! 2) = [] \<and>
           length (towers g') = 3 \<and> moves g' = 0"
proof -
  let ?n = "numDisks g"
  let ?g0 = "updateUI ((clearDisks g)\<lparr>moves := 0, timer := 0, isGameOver := False\<rparr>)"
  let ?g1 = "?g0\<lparr>disks_g := disks_g ?g0 @ map (\<lambda>i. newDisk (?n - i)) [0..<?n]\<rparr>"
  let ?g2 = "fold (\<lambda>i. addDisk 0 i) [0..<?n] ?g1"
  have tw1: "towers ?g1 = map (\<lambda>t. t\<lparr>disks := []\<rparr>) (towers g)"
    by (simp add: updateUI_def clearDisks_def)
  have ds1: "disks_g ?g1 = map (\<lambda>i. newDisk (?n - i)) [0..<?n]"
    by (simp add: updateUI_def clearDisks_def)
  have res: "resetForSolution rnd g = Some (Inr ?g2)"
    using mode len n
    by (simp add: resetForSolution_def createDisks_def Let_def updateUI_def clearDisks_def)
  have tw2: "towers ?g2 = (towers ?g1)[0 := (towers ?g1 ! 0)\<lparr>disks := disks (towers ?g1 ! 0) @ [0..<?n]\<rparr>]"
    by (rule fold_addDisk_towers)
  have d0: "disks (towers ?g2 ! 0) = [0..<?n]"
    unfolding tw2 tw1 using len by simp
  have "sizes (disks_g ?g2) (towers ?g2 ! 0) = sizes (disks_g ?g1) (towers ?g2 ! 0)"
    by (rule sizes_store_cong) (rule fold_addDisk_size)
  also have "\<dots> = map (\<lambda>i. ?n - i) [0..<?n]"
    unfolding sizes_def d0 ds1 by (simp add: newDisk_def)
  finally have s0: "sizes (disks_g ?g2) (towers ?g2 ! 0) = rev [1..<Suc ?n]"
    by (simp only: countdown_solved solved_def)
  have d1: "disks (towers ?g2 ! 1) = []" and d2: "disks (towers ?g2 ! 2) = []"
    unfolding tw2 tw1 using len by simp_all
  have l: "length (towers ?g2) = 3" unfolding tw2 tw1 using len by simp
  have m: "moves ?g2 = 0"
    by (simp add: fold_addDisk_moves updateUI_def)
  show ?thesis using res s0 d1 d2 l m by blast
qed

text \<open>
  C6 fails on the code in puzzle mode. \<open>puzzle3\<close> is a state of a session in puzzle
  mode, the game is not over, and the player asks for the solution. With the draws
  1, 0, 1, 0, 1, 0 \<open>resetForSolution\<close> leaves all three disks on tower 1 and tower 0
  empty, and the first generated move, 0 \<rightarrow> 2, is then skipped.
\<close>

theorem resetForSolution_puzzle_scrambled:
  "\<not> isGameOver puzzle3 \<and>
   resetForSolution [1, 0, 1, 0, 1, 0] puzzle3 = Some (Inr scrambled3) \<and>
   sizes (disks_g scrambled3) (towers scrambled3 ! 0) = [] \<and>
   sizes (disks_g scrambled3) (towers scrambled3 ! 1) = [3, 2, 1] \<and>
   executeAutoMove 0 2 scrambled3 = Inr scrambled3"
  by (simp add: resetForSolution_def puzzle3_def createDisks_def createPuzzleConfiguration_def
      clearDisks_def updateUI_def addDisk_def newDisk_def upt_rec
      getTopDisk_def Let_def scrambled3_def sizes_def executeAutoMove_def)

end
